theory Spec2Isabelle
  imports Complex_Main "HOL-Library.Log_Nat"
begin

section \<open>Python values used by the server\<close>

text \<open>
  The server is Python: integers are unbounded (\<open>int\<close>), and every non-integer number is
  an IEEE-754 binary64 value.  Exceptions are values of type \<open>error\<close>; a computation
  that may raise, or that sits inside a loop that may run forever, returns a \<open>result\<close>.
\<close>

datatype error = IndexError | ZeroDivisionError | OverflowError | ValueError | TypeError
  | MalformedPayload

datatype 'a result = Ok 'a | Raised error | OutOfFuel

definition bind_r :: "'a result \<Rightarrow> ('a \<Rightarrow> 'b result) \<Rightarrow> 'b result" where
  "bind_r r f = (case r of Ok v \<Rightarrow> f v | Raised e \<Rightarrow> Raised e | OutOfFuel \<Rightarrow> OutOfFuel)"

subsection \<open>Binary64 arithmetic\<close>

text \<open>
  A finite double is a rational \<open>m * 2 ^ e\<close> with \<open>\<bar>m\<bar> < 2 ^ 53\<close> and \<open>- 1074 \<le> e\<close>, of
  magnitude below \<open>2 ^ 1024\<close>.  Every arithmetic operation returns the exact result rounded to
  the nearest such value, ties to the even mantissa.  The two zeros are identified: the
  server never divides by a float zero without raising, and never prints a float.
\<close>

datatype pyfloat = Fin rat | PInf | NInf | NaN

definition two_pow :: "int \<Rightarrow> rat" where
  "two_pow k = (if 0 \<le> k then 2 ^ nat k else 1 / 2 ^ nat (- k))"

definition round_half_even :: "rat \<Rightarrow> int" where
  "round_half_even x =
     (let f = \<lfloor>x\<rfloor>; d = x - of_int f
      in if d < 1 / 2 then f else if 1 / 2 < d then f + 1 else if even f then f else f + 1)"

text \<open>\<open>ilog2 x\<close> is the binary exponent of a positive rational: \<open>2 ^ ilog2 x \<le> x < 2 ^ (ilog2 x + 1)\<close>.\<close>

definition ilog2 :: "rat \<Rightarrow> int" where
  "ilog2 x = (let (p, q) = quotient_of x; k = bitlen p - bitlen q
              in if two_pow k \<le> x then k else k - 1)"

text \<open>The spacing of the doubles around \<open>x\<close> is \<open>2 ^ grid_exp x\<close> (subnormals share the last one).\<close>

definition grid_exp :: "rat \<Rightarrow> int" where
  "grid_exp x = max (ilog2 \<bar>x\<bar> - 52) (- 1074)"

definition round_double :: "rat \<Rightarrow> rat" where
  "round_double x = (if x = 0 then 0 else
      sgn x * of_int (round_half_even (\<bar>x\<bar> / two_pow (grid_exp x))) * two_pow (grid_exp x))"

text \<open>
  A result whose rounding reaches \<open>2 ^ 1024\<close> in magnitude, that is whose binary exponent
  reaches 1024, overflows to an infinity.
\<close>

definition fl_round :: "rat \<Rightarrow> pyfloat" where
  "fl_round x = (let r = round_double x
                 in if r = 0 then Fin 0
                    else if 1024 \<le> ilog2 \<bar>r\<bar> then (if 0 < r then PInf else NInf)
                    else Fin r)"

text \<open>Sign of a float that is not NaN, as \<open>- 1\<close>, \<open>0\<close> or \<open>1\<close>.\<close>

fun fl_sgn :: "pyfloat \<Rightarrow> rat" where
  "fl_sgn (Fin a) = sgn a"
| "fl_sgn PInf = 1"
| "fl_sgn NInf = - 1"
| "fl_sgn NaN = 0"

definition inf_of_sign :: "rat \<Rightarrow> pyfloat" where
  "inf_of_sign s = (if s = 0 then NaN else if 0 < s then PInf else NInf)"

fun fl_mul :: "pyfloat \<Rightarrow> pyfloat \<Rightarrow> pyfloat" where
  "fl_mul (Fin a) (Fin b) = fl_round (a * b)"
| "fl_mul NaN y = NaN"
| "fl_mul x NaN = NaN"
| "fl_mul x y = inf_of_sign (fl_sgn x * fl_sgn y)"

fun fl_add :: "pyfloat \<Rightarrow> pyfloat \<Rightarrow> pyfloat" where
  "fl_add (Fin a) (Fin b) = fl_round (a + b)"
| "fl_add NaN y = NaN"
| "fl_add x NaN = NaN"
| "fl_add PInf NInf = NaN"
| "fl_add NInf PInf = NaN"
| "fl_add PInf y = PInf"
| "fl_add NInf y = NInf"
| "fl_add x PInf = PInf"
| "fl_add x NInf = NInf"

text \<open>Python's \<open>x / y\<close> on floats raises on a zero divisor instead of returning an infinity.\<close>

fun fl_truediv :: "pyfloat \<Rightarrow> pyfloat \<Rightarrow> pyfloat result" where
  "fl_truediv x (Fin b) =
     (if b = 0 then Raised ZeroDivisionError
      else case x of Fin a \<Rightarrow> Ok (fl_round (a / b)) | NaN \<Rightarrow> Ok NaN
           | _ \<Rightarrow> Ok (inf_of_sign (fl_sgn x * sgn b)))"
| "fl_truediv NaN y = Ok NaN"
| "fl_truediv x NaN = Ok NaN"
| "fl_truediv (Fin a) y = Ok (Fin 0)"
| "fl_truediv x y = Ok NaN"

text \<open>Comparisons are exact, and false as soon as one side is NaN.\<close>

fun fl_less :: "pyfloat \<Rightarrow> pyfloat \<Rightarrow> bool" where
  "fl_less NaN y = False"
| "fl_less x NaN = False"
| "fl_less (Fin a) (Fin b) = (a < b)"
| "fl_less x PInf = (x \<noteq> PInf)"
| "fl_less NInf y = (y \<noteq> NInf)"
| "fl_less x y = False"

definition fl_eq :: "pyfloat \<Rightarrow> pyfloat \<Rightarrow> bool" where
  "fl_eq x y = (x \<noteq> NaN \<and> x = y)"

definition fl_le :: "pyfloat \<Rightarrow> pyfloat \<Rightarrow> bool" where
  "fl_le x y = (fl_less x y \<or> fl_eq x y)"

text \<open>\<open>float(i)\<close>, as done implicitly when an int meets a float in \<open>*\<close>, \<open>+\<close> or \<open>/\<close>.\<close>

definition float_of_int :: "int \<Rightarrow> pyfloat result" where
  "float_of_int i = (case fl_round (of_int i) of Fin r \<Rightarrow> Ok (Fin r) | _ \<Rightarrow> Raised OverflowError)"

text \<open>\<open>a / b\<close> on two ints: the exact quotient, correctly rounded.\<close>

definition int_truediv :: "int \<Rightarrow> int \<Rightarrow> pyfloat result" where
  "int_truediv a b =
     (if b = 0 then Raised ZeroDivisionError
      else case fl_round (of_int a / of_int b) of Fin r \<Rightarrow> Ok (Fin r) | _ \<Rightarrow> Raised OverflowError)"

text \<open>\<open>int(x)\<close> truncates towards zero.\<close>

definition trunc :: "rat \<Rightarrow> int" where
  "trunc x = (if 0 \<le> x then \<lfloor>x\<rfloor> else \<lceil>x\<rceil>)"

fun int_of_float :: "pyfloat \<Rightarrow> int result" where
  "int_of_float (Fin a) = Ok (trunc a)"
| "int_of_float NaN = Raised ValueError"
| "int_of_float x = Raised OverflowError"

section \<open>The type effectiveness table\<close>

type_synonym row = "(string \<times> rat) list"

definition TYPE_EFFECTIVENESS :: "(string \<times> row) list" where
  "TYPE_EFFECTIVENESS = [
    (''normal'', [(''rock'', 1/2), (''ghost'', 0)]),
    (''fire'', [(''fire'', 1/2), (''water'', 1/2), (''grass'', 2), (''ice'', 2), (''bug'', 2),
                (''rock'', 1/2), (''steel'', 2)]),
    (''water'', [(''fire'', 2), (''water'', 1/2), (''grass'', 1/2), (''ground'', 2), (''rock'', 2),
                 (''dragon'', 1/2)]),
    (''electric'', [(''water'', 2), (''electric'', 1/2), (''grass'', 1/2), (''ground'', 0),
                    (''flying'', 2), (''dragon'', 1/2)]),
    (''grass'', [(''fire'', 1/2), (''water'', 2), (''grass'', 1/2), (''poison'', 1/2), (''ground'', 2),
                 (''flying'', 1/2), (''bug'', 1/2), (''rock'', 2), (''dragon'', 1/2), (''steel'', 1/2)]),
    (''ice'', [(''fire'', 1/2), (''water'', 1/2), (''grass'', 2), (''ice'', 1/2), (''ground'', 2),
               (''flying'', 2), (''dragon'', 2), (''steel'', 1/2)]),
    (''fighting'', [(''normal'', 2), (''ice'', 2), (''poison'', 1/2), (''flying'', 1/2),
                    (''psychic'', 1/2), (''bug'', 1/2), (''rock'', 2), (''ghost'', 0), (''dark'', 2),
                    (''steel'', 2)]),
    (''poison'', [(''grass'', 2), (''poison'', 1/2), (''ground'', 1/2), (''rock'', 1/2),
                  (''ghost'', 1/2), (''steel'', 0)]),
    (''ground'', [(''fire'', 2), (''electric'', 2), (''grass'', 1/2), (''poison'', 2), (''flying'', 0),
                  (''bug'', 1/2), (''rock'', 2), (''steel'', 2)]),
    (''flying'', [(''electric'', 1/2), (''grass'', 2), (''fighting'', 2), (''bug'', 2),
                  (''rock'', 1/2), (''steel'', 1/2)]),
    (''psychic'', [(''fighting'', 2), (''poison'', 2), (''psychic'', 1/2), (''dark'', 0),
                   (''steel'', 1/2)]),
    (''bug'', [(''fire'', 1/2), (''grass'', 2), (''fighting'', 1/2), (''poison'', 1/2),
               (''flying'', 1/2), (''psychic'', 2), (''ghost'', 1/2), (''dark'', 2), (''steel'', 1/2)]),
    (''rock'', [(''fire'', 2), (''ice'', 2), (''fighting'', 1/2), (''ground'', 1/2), (''flying'', 2),
                (''bug'', 2), (''steel'', 1/2)]),
    (''ghost'', [(''normal'', 0), (''psychic'', 2), (''ghost'', 2), (''dark'', 1/2)]),
    (''dragon'', [(''dragon'', 2), (''steel'', 1/2)]),
    (''dark'', [(''fighting'', 1/2), (''psychic'', 2), (''ghost'', 2), (''dark'', 1/2)]),
    (''steel'', [(''fire'', 1/2), (''water'', 1/2), (''electric'', 1/2), (''ice'', 2), (''rock'', 2),
                 (''dragon'', 1), (''steel'', 1/2)]),
    (''fairy'', [(''fire'', 1/2), (''fighting'', 2), (''poison'', 1/2), (''dragon'', 2), (''dark'', 2),
                 (''steel'', 1/2)])]"

text \<open>\<open>row.get(defending_type, 1.0)\<close>\<close>

definition row_get :: "row \<Rightarrow> string \<Rightarrow> rat" where
  "row_get r d = (case map_of r d of None \<Rightarrow> 1 | Some v \<Rightarrow> v)"

text \<open>
  The accumulation \<open>effectiveness = 1.0; for t in types: effectiveness *= row.get(t, 1.0)\<close>,
  shared by the battle (lines 221-223) and the type analysis (lines 330-332).  An int entry
  of the table is converted to the float of the same value when it is multiplied.
\<close>

fun effectiveness_loop :: "row \<Rightarrow> string list \<Rightarrow> pyfloat \<Rightarrow> pyfloat" where
  "effectiveness_loop r [] acc = acc"
| "effectiveness_loop r (d # ds) acc = effectiveness_loop r ds (fl_mul acc (Fin (row_get r d)))"

text \<open>In the battle the row is \<open>TYPE_EFFECTIVENESS.get(move_type, {})\<close>.\<close>

definition battle_effectiveness :: "string \<Rightarrow> string list \<Rightarrow> pyfloat" where
  "battle_effectiveness move_type def_types =
     effectiveness_loop (case map_of TYPE_EFFECTIVENESS move_type of None \<Rightarrow> [] | Some r \<Rightarrow> r)
       def_types (Fin 1)"

text \<open>In the type analysis the row is \<open>TYPE_EFFECTIVENESS[attacking_type]\<close>, for a key of the table.\<close>

definition total_effectiveness :: "row \<Rightarrow> string list \<Rightarrow> pyfloat" where
  "total_effectiveness r pokemon_types = effectiveness_loop r pokemon_types (Fin 1)"

subsection \<open>The single-pair query\<close>

datatype verdict = SuperEffective | NotVeryEffective | NoEffect | NormalEffectiveness

datatype type_reply = InvalidType string | Matchup string string verdict

text \<open>
  Lines 288-306.  \<open>str.lower\<close> belongs to Python, not to the server: the function takes it as
  the parameter \<open>lower\<close>, and what is proved of it holds whatever \<open>lower\<close> is.
\<close>

definition get_type_effectiveness ::
  "(string \<Rightarrow> string) \<Rightarrow> string \<Rightarrow> string \<Rightarrow> type_reply" where
  "get_type_effectiveness lower attacking_type defending_type =
     (let a = lower attacking_type; d = lower defending_type
      in case map_of TYPE_EFFECTIVENESS a of
           None \<Rightarrow> InvalidType a
         | Some r \<Rightarrow>
             (let effectiveness = row_get r d
              in Matchup a d
                   (if effectiveness = 2 then SuperEffective
                    else if effectiveness = 1 / 2 then NotVeryEffective
                    else if effectiveness = 0 then NoEffect
                    else NormalEffectiveness)))"

text \<open>The multiplier behind a verdict, as the reply prints it (\<open>2x\<close>, \<open>0.5x\<close>, \<open>0x\<close>, \<open>1x\<close>).\<close>

fun verdict_multiplier :: "verdict \<Rightarrow> rat" where
  "verdict_multiplier SuperEffective = 2"
| "verdict_multiplier NotVeryEffective = 1 / 2"
| "verdict_multiplier NoEffect = 0"
| "verdict_multiplier NormalEffectiveness = 1"

subsection \<open>The weakness and resistance breakdown\<close>

text \<open>
  Lines 324-341.  An entry \<open>f"{attacking_type.capitalize()} ({multiplier})"\<close> is kept as the
  pair of the attacking type and its label.
\<close>

record breakdown =
  weaknesses :: "(string \<times> string) list"
  resistances :: "(string \<times> string) list"
  immunities :: "string list"

definition bucket :: "string \<Rightarrow> pyfloat \<Rightarrow> breakdown \<Rightarrow> breakdown" where
  "bucket attacking_type total_eff b =
     (if fl_le (Fin 2) total_eff then
        b\<lparr>weaknesses := weaknesses b @ [(attacking_type, if fl_eq total_eff (Fin 4) then ''4x'' else ''2x'')]\<rparr>
      else if fl_le total_eff (Fin (1 / 2)) \<and> fl_less (Fin 0) total_eff then
        b\<lparr>resistances := resistances b @
             [(attacking_type, if fl_eq total_eff (Fin (1 / 4)) then ''0.25x'' else ''0.5x'')]\<rparr>
      else if fl_eq total_eff (Fin 0) then
        b\<lparr>immunities := immunities b @ [attacking_type]\<rparr>
      else b)"

fun breakdown_loop :: "(string \<times> row) list \<Rightarrow> string list \<Rightarrow> breakdown \<Rightarrow> breakdown" where
  "breakdown_loop [] pokemon_types b = b"
| "breakdown_loop ((attacking_type, r) # rest) pokemon_types b =
     breakdown_loop rest pokemon_types
       (bucket attacking_type (total_effectiveness r pokemon_types) b)"

definition type_breakdown :: "string list \<Rightarrow> breakdown" where
  "type_breakdown pokemon_types =
     breakdown_loop TYPE_EFFECTIVENESS pokemon_types
       \<lparr>weaknesses = [], resistances = [], immunities = []\<rparr>"

section \<open>The battle\<close>

subsection \<open>Data\<close>

text \<open>
  The dictionaries \<open>pokemon1\<close> and \<open>pokemon2\<close> of lines 172-191.  \<open>hp\<close> is the current HP;
  \<open>status\<close> is \<open>None\<close> or the name of an ailment.
\<close>

type_synonym url = string

record pokemon =
  name :: string
  hp :: int
  attack :: int
  defense :: int
  speed :: int
  types :: "string list"
  moves :: "url list"
  status :: "string option"

text \<open>
  What the battle reads of a move payload: \<open>name\<close>, \<open>power\<close> (may be null),
  \<open>type.name\<close>, and \<open>meta\<close> with \<open>ailment.name\<close> and \<open>ailment_chance\<close>
  (\<open>None\<close> when the key is absent or its value is null or empty).
\<close>

record move_meta =
  ailment :: string
  ailment_chance :: int

record move_data =
  move_name :: string
  power :: "int option"
  move_type :: string
  meta :: "move_meta option"

text \<open>
  The outcome of one \<open>_make_api_request\<close>: \<open>NoData\<close> when it returns \<open>None\<close> (a request
  error or a non-success status, both caught at line 23) or an empty payload; \<open>Malformed\<close> when
  the body is not JSON or lacks a field the battle reads, which raises; otherwise the payload.
\<close>

datatype response = NoData | Malformed | Payload move_data

text \<open>
  The world outside the function: the successive values of \<open>random.random()\<close>, the successive
  picks of \<open>random.choice\<close> (reduced modulo the length of the sequence), and the provider's
  answer to the \<open>n\<close>-th request for a given URL.
\<close>

record env =
  random_random :: "nat \<Rightarrow> rat"
  random_choice :: "nat \<Rightarrow> nat"
  api :: "nat \<Rightarrow> url \<Rightarrow> response"

datatype event =
    Intro
  | Faster string
  | TurnHeader nat
  | CantMove string
  | Used string string
  | ItsSuperEffective
  | ItsNotVeryEffective
  | DoesntAffect string
  | TookDamage string int int
  | Fainted string
  | Afflicted string string
  | StatusDamage string int string
  | Blank
  | BattleOver
  | TheWinnerIs string

text \<open>
  The local variables of \<open>simulate_battle\<close>.  \<open>attacker\<close> and \<open>defender\<close> are references to
  the two dictionaries, so the state records which of them \<open>attacker\<close> points to.
  \<open>p1_data_hp\<close> and \<open>p2_data_hp\<close> are \<open>p1_data['stats'][0]['base_stat']\<close> and its twin; the
  three counters say how far into \<open>env\<close> the run has got.
\<close>

record battle =
  pokemon1 :: pokemon
  pokemon2 :: pokemon
  attacker_is_pokemon1 :: bool
  p1_data_hp :: int
  p2_data_hp :: int
  turn :: nat
  battle_log :: "event list"
  randoms :: nat
  choices :: nat
  requests :: nat

definition attacker :: "battle \<Rightarrow> pokemon" where
  "attacker b = (if attacker_is_pokemon1 b then pokemon1 b else pokemon2 b)"

definition defender :: "battle \<Rightarrow> pokemon" where
  "defender b = (if attacker_is_pokemon1 b then pokemon2 b else pokemon1 b)"

definition set_attacker :: "pokemon \<Rightarrow> battle \<Rightarrow> battle" where
  "set_attacker p b = (if attacker_is_pokemon1 b then b\<lparr>pokemon1 := p\<rparr> else b\<lparr>pokemon2 := p\<rparr>)"

definition set_defender :: "pokemon \<Rightarrow> battle \<Rightarrow> battle" where
  "set_defender p b = (if attacker_is_pokemon1 b then b\<lparr>pokemon2 := p\<rparr> else b\<lparr>pokemon1 := p\<rparr>)"

definition say :: "event \<Rightarrow> battle \<Rightarrow> battle" where
  "say ev b = b\<lparr>battle_log := battle_log b @ [ev]\<rparr>"

text \<open>How a step of the loop body ends: it falls through, or it leaves the loop by \<open>break\<close>.\<close>

datatype flow = Continue battle | Break battle

subsection \<open>Selecting a move (lines 208-213)\<close>

text \<open>
  \<open>while not move_data\<close> may run forever; \<open>fuel\<close> bounds the number of draws, and running out
  of it is the result \<open>OutOfFuel\<close>.
\<close>

fun select_move :: "nat \<Rightarrow> env \<Rightarrow> battle \<Rightarrow> (move_data \<times> battle) result" where
  "select_move 0 e b = OutOfFuel"
| "select_move (Suc fuel) e b =
     (if moves (attacker b) = [] then Raised IndexError
      else
        let random_move_url =
              moves (attacker b) ! (random_choice e (choices b) mod length (moves (attacker b)));
            potential_move_data = api e (requests b) random_move_url;
            b' = b\<lparr>choices := choices b + 1, requests := requests b + 1\<rparr>
        in case potential_move_data of
             NoData \<Rightarrow> select_move fuel e b'
           | Malformed \<Rightarrow> Raised MalformedPayload
           | Payload md \<Rightarrow>
               (case power md of
                  None \<Rightarrow> select_move fuel e b'
                | Some p \<Rightarrow> if 0 < p then Ok (md, b') else select_move fuel e b'))"

subsection \<open>Damage (lines 232-237)\<close>

text \<open>
  \<open>(((2/5 + 2) * move_power * (attack / defense)) / 50) * effectiveness + 2\<close>, evaluated left
  to right in binary64.  The literals \<open>2\<close> and \<open>50\<close> convert exactly.
\<close>

definition damage_value :: "int \<Rightarrow> int \<Rightarrow> int \<Rightarrow> pyfloat \<Rightarrow> pyfloat result" where
  "damage_value move_power atk dfn effectiveness =
     bind_r (int_truediv 2 5) (\<lambda>two_fifths.
     bind_r (float_of_int move_power) (\<lambda>p.
     bind_r (int_truediv atk dfn) (\<lambda>ratio.
     bind_r (fl_truediv (fl_mul (fl_mul (fl_add two_fifths (Fin 2)) p) ratio) (Fin 50)) (\<lambda>base.
     Ok (fl_add (fl_mul base effectiveness) (Fin 2))))))"

definition calc_damage :: "int \<Rightarrow> int \<Rightarrow> int \<Rightarrow> pyfloat \<Rightarrow> string option \<Rightarrow> int result" where
  "calc_damage move_power atk dfn effectiveness attacker_status =
     bind_r (damage_value move_power atk dfn effectiveness) (\<lambda>v.
     bind_r (int_of_float v) (\<lambda>damage.
     if attacker_status = Some ''burn''
     then bind_r (float_of_int damage) (\<lambda>d. int_of_float (fl_mul d (Fin (1 / 2))))
     else Ok damage))"

text \<open>
  The formula as the specification words it, with \<open>floor\<close> at its two truncation points:
  \<open>base = ((2/5 + 2) * power * (attack / defense)) / 50\<close>,
  \<open>damage = floor(base * effectiveness + 2)\<close>, and \<open>floor(damage * 0.5)\<close> under Burn.
\<close>

fun fl_floor :: "pyfloat \<Rightarrow> int result" where
  "fl_floor (Fin a) = Ok \<lfloor>a\<rfloor>"
| "fl_floor NaN = Raised ValueError"
| "fl_floor x = Raised OverflowError"

definition spec_base :: "int \<Rightarrow> int \<Rightarrow> int \<Rightarrow> pyfloat result" where
  "spec_base pw atk dfn =
     bind_r (int_truediv 2 5) (\<lambda>two_fifths.
     bind_r (float_of_int pw) (\<lambda>p.
     bind_r (int_truediv atk dfn) (\<lambda>ratio.
     fl_truediv (fl_mul (fl_mul (fl_add two_fifths (Fin 2)) p) ratio) (Fin 50))))"

definition spec_damage :: "int \<Rightarrow> int \<Rightarrow> int \<Rightarrow> pyfloat \<Rightarrow> bool \<Rightarrow> int result" where
  "spec_damage pw atk dfn effectiveness burn =
     bind_r (spec_base pw atk dfn) (\<lambda>base.
     bind_r (fl_floor (fl_add (fl_mul base effectiveness) (Fin 2))) (\<lambda>damage.
     if burn then bind_r (float_of_int damage) (\<lambda>d. fl_floor (fl_mul d (Fin (1 / 2))))
     else Ok damage))"

subsection \<open>The action phase (lines 206-253)\<close>

definition effectiveness_messages :: "pyfloat \<Rightarrow> string \<Rightarrow> event list" where
  "effectiveness_messages effectiveness defender_name =
     (if fl_less (Fin 1) effectiveness then [ItsSuperEffective]
      else if fl_less effectiveness (Fin 1) \<and> fl_less (Fin 0) effectiveness then [ItsNotVeryEffective]
      else if fl_eq effectiveness (Fin 0) then [DoesntAffect defender_name]
      else [])"

text \<open>\<open>not defender['status']\<close>: \<open>None\<close> and the empty string are false.\<close>

definition no_status :: "string option \<Rightarrow> bool" where
  "no_status s = (s = None \<or> s = Some [])"

text \<open>Lines 247-253.  The random number is drawn only once the ailment is one of the three.\<close>

definition apply_ailment :: "env \<Rightarrow> move_data \<Rightarrow> battle \<Rightarrow> battle result" where
  "apply_ailment e md b =
     (case meta md of
        None \<Rightarrow> Ok b
      | Some m \<Rightarrow>
          if no_status (status (defender b)) then
            (if ailment m \<in> set [''paralysis'', ''burn'', ''poison''] then
               (let r = random_random e (randoms b);
                    b' = b\<lparr>randoms := randoms b + 1\<rparr>
                in bind_r (float_of_int (ailment_chance m)) (\<lambda>chance.
                   bind_r (fl_truediv chance (Fin 100)) (\<lambda>threshold.
                   if fl_less (Fin r) threshold
                   then Ok (say (Afflicted (name (defender b')) (ailment m))
                              (set_defender ((defender b')\<lparr>status := Some (ailment m)\<rparr>) b'))
                   else Ok b')))
             else Ok b)
          else Ok b)"

text \<open>Lines 215-245: the move is announced, rated, and its damage taken off the defender.\<close>

definition deal_damage :: "move_data \<Rightarrow> battle \<Rightarrow> (int \<times> battle) result" where
  "deal_damage md b =
     (let b1 = say (Used (name (attacker b)) (move_name md)) b;
          effectiveness = battle_effectiveness (move_type md) (types (defender b1));
          b2 = b1\<lparr>battle_log := battle_log b1 @
                   effectiveness_messages effectiveness (name (defender b1))\<rparr>
      in case power md of
           None \<Rightarrow> Raised TypeError
         | Some move_power \<Rightarrow>
             bind_r (calc_damage move_power (attack (attacker b2)) (defense (defender b2))
                       effectiveness (status (attacker b2))) (\<lambda>damage.
             let d = (defender b2)\<lparr>hp := hp (defender b2) - damage\<rparr>
             in Ok (damage, say (TookDamage (name d) damage (max 0 (hp d))) (set_defender d b2))))"

definition action_phase :: "env \<Rightarrow> nat \<Rightarrow> battle \<Rightarrow> flow result" where
  "action_phase e fuel b =
     bind_r (select_move fuel e b) (\<lambda>(md, b1).
     bind_r (deal_damage md b1) (\<lambda>(damage, b2).
     if hp (defender b2) \<le> 0 then Ok (Break (say (Fainted (name (defender b2))) b2))
     else bind_r (apply_ailment e md b2) (\<lambda>b3. Ok (Continue b3))))"

subsection \<open>The end of the turn (lines 256-270)\<close>

text \<open>\<open>attacker == pokemon1\<close> compares the two dictionaries by value.\<close>

definition end_of_turn :: "battle \<Rightarrow> flow result" where
  "end_of_turn b =
     (if status (attacker b) = Some ''poison'' \<or> status (attacker b) = Some ''burn'' then
        (let original_max_hp = (if attacker b = pokemon1 b then p1_data_hp b else p2_data_hp b)
         in bind_r (int_truediv original_max_hp 8) (\<lambda>q.
            bind_r (int_of_float q) (\<lambda>status_damage.
            let a = (attacker b)\<lparr>hp := hp (attacker b) - status_damage\<rparr>;
                b1 = say (StatusDamage (name a) status_damage (case status a of None \<Rightarrow> [] | Some s \<Rightarrow> s))
                       (set_attacker a b)
            in if hp a \<le> 0 then Ok (Break (say (Fainted (name a)) b1)) else Ok (Continue b1))))
      else Ok (Continue b))"

definition swap_roles :: "battle \<Rightarrow> battle" where
  "swap_roles b = say Blank (b\<lparr>attacker_is_pokemon1 := \<not> attacker_is_pokemon1 b, turn := turn b + 1\<rparr>)"

subsection \<open>One turn and the loop (lines 199-270)\<close>

definition turn_step :: "env \<Rightarrow> nat \<Rightarrow> battle \<Rightarrow> flow result" where
  "turn_step e fuel b =
     (let b0 = say (TurnHeader (turn b)) b;
          acted =
            (if status (attacker b0) = Some ''paralysis'' then
               (let r = random_random e (randoms b0);
                    b1 = b0\<lparr>randoms := randoms b0 + 1\<rparr>
                in if r < 1 / 4 then Ok (Continue (say (CantMove (name (attacker b1))) b1))
                   else action_phase e fuel b1)
             else action_phase e fuel b0)
      in bind_r acted (\<lambda>f.
         case f of
           Break b2 \<Rightarrow> Ok (Break b2)
         | Continue b2 \<Rightarrow>
             bind_r (end_of_turn b2) (\<lambda>g.
             case g of
               Break b3 \<Rightarrow> Ok (Break b3)
             | Continue b3 \<Rightarrow> Ok (Continue (swap_roles b3)))))"

text \<open>
  \<open>while pokemon1['hp'] > 0 and pokemon2['hp'] > 0\<close>.  \<open>fuel\<close> bounds the number of turns, and
  the number of draws of each selection.
\<close>

fun battle_loop :: "nat \<Rightarrow> env \<Rightarrow> battle \<Rightarrow> battle result" where
  "battle_loop 0 e b = (if 0 < hp (pokemon1 b) \<and> 0 < hp (pokemon2 b) then OutOfFuel else Ok b)"
| "battle_loop (Suc fuel) e b =
     (if 0 < hp (pokemon1 b) \<and> 0 < hp (pokemon2 b) then
        bind_r (turn_step e (Suc fuel) b) (\<lambda>f.
        case f of
          Break b' \<Rightarrow> Ok b'
        | Continue b' \<Rightarrow> battle_loop fuel e b')
      else Ok b)"

text \<open>Line 273.\<close>

definition winner :: "battle \<Rightarrow> pokemon" where
  "winner b = (if 0 < hp (pokemon1 b) then pokemon1 b else pokemon2 b)"

text \<open>
  Lines 171-191.  What the battle reads of the data fetched for one Pok\<^verbatim>\<open>e\<close>mon: its name
  (capitalised), the base stats of slots 0, 1, 2 and 5, its type names and the URLs of its
  moves.  The dictionary built from it keeps the URLs that are not empty and has no status.
\<close>

record pokemon_data =
  data_name :: string
  base_hp :: int
  base_attack :: int
  base_defense :: int
  base_speed :: int
  type_names :: "string list"
  move_urls :: "url list"

definition make_pokemon :: "pokemon_data \<Rightarrow> pokemon" where
  "make_pokemon d =
     \<lparr>name = data_name d, hp = base_hp d, attack = base_attack d, defense = base_defense d,
      speed = base_speed d, types = type_names d,
      moves = filter (\<lambda>u. u \<noteq> []) (move_urls d), status = None\<rparr>"

text \<open>Lines 193-198: the faster one attacks first, the first one on a tie.\<close>

definition start_battle :: "pokemon_data \<Rightarrow> pokemon_data \<Rightarrow> battle" where
  "start_battle p1_data p2_data =
     (let p1 = make_pokemon p1_data; p2 = make_pokemon p2_data;
          first = (if speed p2 \<le> speed p1 then p1 else p2)
      in \<lparr>pokemon1 = p1, pokemon2 = p2, attacker_is_pokemon1 = (speed p2 \<le> speed p1),
          p1_data_hp = base_hp p1_data, p2_data_hp = base_hp p2_data, turn = 1,
          battle_log = [Intro, Faster (name first)],
          randoms = 0, choices = 0, requests = 0\<rparr>)"

text \<open>
  \<open>simulate_battle\<close> from line 171 on, given the data fetched for the two names.  The report is
  the log; an exception leaves no report.  The log keeps the names and numbers of the messages,
  not their wording.
\<close>

definition simulate_battle ::
  "nat \<Rightarrow> env \<Rightarrow> pokemon_data \<Rightarrow> pokemon_data \<Rightarrow> event list result" where
  "simulate_battle fuel e p1_data p2_data =
     bind_r (battle_loop fuel e (start_battle p1_data p2_data)) (\<lambda>b.
     Ok (battle_log b @ [BattleOver, TheWinnerIs (name (winner b))]))"

section \<open>Auxiliary notions\<close>

text \<open>The values that occur in the table, the buckets of the breakdown, and a row used as an example.\<close>

definition multipliers :: "rat set" where
  "multipliers = {0, 1/2, 1, 2}"

definition fire_row :: row where
  "fire_row = [(''fire'', 1/2), (''water'', 1/2), (''grass'', 2), (''ice'', 2), (''bug'', 2),
                (''rock'', 1/2), (''steel'', 2)]"

definition weak_label :: "pyfloat \<Rightarrow> string" where
  "weak_label t = (if fl_eq t (Fin 4) then ''4x'' else ''2x'')"

definition resistant_label :: "pyfloat \<Rightarrow> string" where
  "resistant_label t = (if fl_eq t (Fin (1 / 4)) then ''0.25x'' else ''0.5x'')"

definition is_weak :: "pyfloat \<Rightarrow> bool" where
  "is_weak t = fl_le (Fin 2) t"

definition is_resistant :: "pyfloat \<Rightarrow> bool" where
  "is_resistant t = (fl_le t (Fin (1 / 2)) \<and> fl_less (Fin 0) t)"

definition is_immune :: "pyfloat \<Rightarrow> bool" where
  "is_immune t = fl_eq t (Fin 0)"

text \<open>
  Ranges of floats used to bound a computation: not negative (an infinity or NaN counts, since
  converting it raises), finite between \<open>0\<close> and \<open>2 ^ n\<close>, and at least \<open>2 ^ n\<close>.  A statistic
  is in range when it is positive and converts exactly to a double.
\<close>

definition nonneg_fl :: "pyfloat \<Rightarrow> bool" where
  "nonneg_fl x = (case x of Fin a \<Rightarrow> 0 \<le> a | PInf \<Rightarrow> True | NInf \<Rightarrow> False | NaN \<Rightarrow> True)"

definition bounded_fl :: "int \<Rightarrow> pyfloat \<Rightarrow> bool" where
  "bounded_fl n x = (case x of Fin a \<Rightarrow> 0 \<le> a \<and> a \<le> two_pow n | _ \<Rightarrow> False)"

definition ge_fl :: "int \<Rightarrow> pyfloat \<Rightarrow> bool" where
  "ge_fl n x = (case x of Fin a \<Rightarrow> two_pow n \<le> a | PInf \<Rightarrow> True | NInf \<Rightarrow> False | NaN \<Rightarrow> True)"

definition stat_ok :: "int \<Rightarrow> bool" where
  "stat_ok n = (0 < n \<and> n < 2 ^ 53)"

text \<open>
  Two Ground Pok\<^verbatim>\<open>e\<close>mon whose only move is Nuzzle, an Electric move of power 20 that always
  paralyses: the table gives Electric against Ground the multiplier 0.
\<close>

definition nuzzle_url :: url where
  "nuzzle_url = ''https://pokeapi.co/api/v2/move/609/''"

definition nuzzle :: move_data where
  "nuzzle = \<lparr>move_name = ''nuzzle'', power = Some 20, move_type = ''electric'',
             meta = Some \<lparr>ailment = ''paralysis'', ailment_chance = 100\<rparr>\<rparr>"

definition sandshrew :: pokemon_data where
  "sandshrew = \<lparr>data_name = ''Sandshrew'', base_hp = 50, base_attack = 75, base_defense = 85,
                base_speed = 40, type_names = [''ground''], move_urls = [nuzzle_url]\<rparr>"

definition diglett :: pokemon_data where
  "diglett = \<lparr>data_name = ''Diglett'', base_hp = 10, base_attack = 55, base_defense = 25,
              base_speed = 95, type_names = [''ground''], move_urls = [nuzzle_url]\<rparr>"

text \<open>
  Names for the parts of a turn: the state a flow carries, the state after the turn header and
  the paralysis roll, whether that roll skips the action, the maximum HP that line 259 picks,
  and the state after the end-of-turn damage.
\<close>

definition flow_state :: "flow \<Rightarrow> battle" where
  "flow_state f = (case f of Continue b \<Rightarrow> b | Break b \<Rightarrow> b)"

definition ticked :: "battle \<Rightarrow> int \<Rightarrow> battle" where
  "ticked b status_damage =
     say (StatusDamage (name (attacker b)) status_damage
            (case status (attacker b) of None \<Rightarrow> [] | Some s \<Rightarrow> s))
       (set_attacker ((attacker b)\<lparr>hp := hp (attacker b) - status_damage\<rparr>) b)"

definition original_max_hp :: "battle \<Rightarrow> int" where
  "original_max_hp b = (if attacker b = pokemon1 b then p1_data_hp b else p2_data_hp b)"

definition skips :: "env \<Rightarrow> battle \<Rightarrow> bool" where
  "skips e b = (status (attacker b) = Some ''paralysis'' \<and> random_random e (randoms b) < 1 / 4)"

definition entering :: "battle \<Rightarrow> battle" where
  "entering b =
     (if status (attacker b) = Some ''paralysis''
      then (say (TurnHeader (turn b)) b)\<lparr>randoms := randoms b + 1\<rparr>
      else say (TurnHeader (turn b)) b)"

text \<open>
  What the log may show (no negative amount, no negative HP), the statistics that the data model has positive, and the relation between two states of one turn when no HP has gone up.
\<close>

definition event_ok :: "event \<Rightarrow> bool" where
  "event_ok ev = (case ev of TookDamage n d h \<Rightarrow> 0 \<le> d \<and> 0 \<le> h | StatusDamage n d s \<Rightarrow> 0 \<le> d
                  | _ \<Rightarrow> True)"

definition positive_stats :: "battle \<Rightarrow> bool" where
  "positive_stats b =
     (0 < attack (pokemon1 b) \<and> 0 < defense (pokemon1 b) \<and> 0 < attack (pokemon2 b)
      \<and> 0 < defense (pokemon2 b) \<and> 0 < p1_data_hp b \<and> 0 < p2_data_hp b)"

definition declines :: "battle \<Rightarrow> battle \<Rightarrow> bool" where
  "declines x y =
     (attacker_is_pokemon1 y = attacker_is_pokemon1 x
      \<and> p1_data_hp y = p1_data_hp x \<and> p2_data_hp y = p2_data_hp x
      \<and> hp (attacker y) \<le> hp (attacker x) \<and> hp (defender y) \<le> hp (defender x)
      \<and> attack (attacker y) = attack (attacker x) \<and> defense (attacker y) = defense (attacker x)
      \<and> attack (defender y) = attack (defender x) \<and> defense (defender y) = defense (defender x)
      \<and> (list_all event_ok (battle_log x) \<longrightarrow> list_all event_ok (battle_log y)))"

text \<open>
  The fields of a combatant that a battle never writes, the relation between two states of one turn that agree on them, the range of the payloads and of the statistics on which no conversion overflows, and the loop condition.
\<close>

definition same_kind :: "pokemon \<Rightarrow> pokemon \<Rightarrow> bool" where
  "same_kind p q = (name q = name p \<and> attack q = attack p \<and> defense q = defense p
                    \<and> speed q = speed p \<and> types q = types p \<and> moves q = moves p)"

definition frame :: "battle \<Rightarrow> battle \<Rightarrow> bool" where
  "frame x y = (attacker_is_pokemon1 y = attacker_is_pokemon1 x
                \<and> p1_data_hp y = p1_data_hp x \<and> p2_data_hp y = p2_data_hp x
                \<and> turn y = turn x
                \<and> same_kind (attacker x) (attacker y) \<and> same_kind (defender x) (defender y))"

definition move_ok :: "move_data \<Rightarrow> bool" where
  "move_ok md = ((case power md of None \<Rightarrow> True | Some p \<Rightarrow> p < 2 ^ 53)
                 \<and> (case meta md of None \<Rightarrow> True
                     | Some m \<Rightarrow> 0 \<le> ailment_chance m \<and> ailment_chance m \<le> 100))"

definition provider_ok :: "env \<Rightarrow> bool" where
  "provider_ok e = (\<forall>n u md. api e n u = Payload md \<longrightarrow> move_ok md)"

definition fit :: "battle \<Rightarrow> bool" where
  "fit b = (stat_ok (attack (pokemon1 b)) \<and> stat_ok (defense (pokemon1 b))
            \<and> length (types (pokemon1 b)) \<le> 2
            \<and> stat_ok (attack (pokemon2 b)) \<and> stat_ok (defense (pokemon2 b))
            \<and> length (types (pokemon2 b)) \<le> 2
            \<and> stat_ok (p1_data_hp b) \<and> stat_ok (p2_data_hp b))"

definition alive :: "battle \<Rightarrow> bool" where
  "alive b = (0 < hp (pokemon1 b) \<and> 0 < hp (pokemon2 b))"

text \<open>
  \<open>str.lower\<close> restricted to ASCII text, where it changes the letters \<open>A\<close> to \<open>Z\<close> only.  It
  stands for \<open>str.lower\<close> in examples whose strings are ASCII, and nowhere else.
\<close>

definition ascii_lower_char :: "char \<Rightarrow> char" where
  "ascii_lower_char c =
     (case map_of (zip ''ABCDEFGHIJKLMNOPQRSTUVWXYZ'' ''abcdefghijklmnopqrstuvwxyz'') c of
        None \<Rightarrow> c | Some l \<Rightarrow> l)"

definition ascii_lower :: "string \<Rightarrow> string" where
  "ascii_lower s = map ascii_lower_char s"

text \<open>
  Data that a provider could send with a negative attack: Swift is a Normal move of power 60,
  and Normal against Normal is not in the table.
\<close>

definition swift_url :: url where
  "swift_url = ''https://pokeapi.co/api/v2/move/129/''"

definition swift :: move_data where
  "swift = \<lparr>move_name = ''swift'', power = Some 60, move_type = ''normal'', meta = None\<rparr>"

definition missingno :: pokemon_data where
  "missingno = \<lparr>data_name = ''Missingno'', base_hp = 33, base_attack = - 100, base_defense = 50,
                base_speed = 100, type_names = [''normal''], move_urls = [swift_url]\<rparr>"

definition eevee :: pokemon_data where
  "eevee = \<lparr>data_name = ''Eevee'', base_hp = 55, base_attack = 55, base_defense = 50,
            base_speed = 55, type_names = [''normal''], move_urls = [swift_url]\<rparr>"

definition swift_env :: env where
  "swift_env = \<lparr>random_random = (\<lambda>n. 0), random_choice = (\<lambda>n. 0), api = (\<lambda>n u. Payload swift)\<rparr>"

text \<open>
  A combatant with 1 HP that Normal moves do not affect.
\<close>

definition shedinja :: pokemon_data where
  "shedinja = \<lparr>data_name = ''Shedinja'', base_hp = 1, base_attack = 90, base_defense = 45,
               base_speed = 40, type_names = [''bug'', ''ghost''], move_urls = [swift_url]\<rparr>"

section \<open>Facts about rounding\<close>

lemma two_pow_powi: "two_pow k = 2 powi k"
  by (simp add: two_pow_def power_int_def inverse_eq_divide power_one_over)

lemma two_pow_pos: "0 < two_pow k"
  by (simp add: two_pow_powi)

lemma two_pow_add: "two_pow (a + b) = two_pow a * two_pow b"
  by (simp add: two_pow_powi power_int_add)

lemma two_pow_mono: "a \<le> b \<Longrightarrow> two_pow a \<le> two_pow b"
  by (simp add: two_pow_powi power_int_increasing)

lemma two_pow_nat: "0 \<le> k \<Longrightarrow> two_pow k = of_int (2 ^ nat k)"
  by (simp add: two_pow_def)

lemma two_pow_diff: "two_pow a / two_pow b = two_pow (a - b)"
  by (simp add: two_pow_powi power_int_diff)

lemma ilog2_bounds:
  assumes "0 < x"
  shows "two_pow (ilog2 x) \<le> x \<and> x < two_pow (ilog2 x + 1)"
proof -
  obtain p q where pq: "quotient_of x = (p, q)" by (cases "quotient_of x")
  have q: "0 < q" using pq quotient_of_denom_pos by blast
  have x: "x = of_int p / of_int q" using pq quotient_of_div by blast
  have p: "0 < p" using assms q x by (simp add: zero_less_divide_iff)
  define bp where "bp = bitlen p"
  define bq where "bq = bitlen q"
  have bp: "2 ^ nat (bp - 1) \<le> p" "p < 2 ^ nat bp" using bitlen_bounds[OF p] by (simp_all add: bp_def)
  have bq: "2 ^ nat (bq - 1) \<le> q" "q < 2 ^ nat bq" using bitlen_bounds[OF q] by (simp_all add: bq_def)
  have bp1: "1 \<le> bp" using p by (simp add: bp_def bitlen_alt_def)
  have bq1: "1 \<le> bq" using q by (simp add: bq_def bitlen_alt_def)
  have P1: "two_pow (bp - 1) \<le> of_int p"
  proof -
    have "(of_int (2 ^ nat (bp - 1)) :: rat) \<le> of_int p" using bp(1) by (simp only: of_int_le_iff)
    then show ?thesis using bp1 by (simp only: two_pow_nat)
  qed
  have P2: "of_int p < two_pow bp"
  proof -
    have "(of_int p :: rat) < of_int (2 ^ nat bp)" using bp(2) by (simp only: of_int_less_iff)
    then show ?thesis using bp1 by (simp only: two_pow_nat)
  qed
  have Q1: "two_pow (bq - 1) \<le> of_int q"
  proof -
    have "(of_int (2 ^ nat (bq - 1)) :: rat) \<le> of_int q" using bq(1) by (simp only: of_int_le_iff)
    then show ?thesis using bq1 by (simp only: two_pow_nat)
  qed
  have Q2: "of_int q < two_pow bq"
  proof -
    have "(of_int q :: rat) < of_int (2 ^ nat bq)" using bq(2) by (simp only: of_int_less_iff)
    then show ?thesis using bq1 by (simp only: two_pow_nat)
  qed
  have qr: "(0::rat) < of_int q" using q by simp
  have lo: "two_pow (bp - bq - 1) < x"
  proof -
    have "two_pow (bp - bq - 1) * of_int q < two_pow (bp - bq - 1) * two_pow bq"
      using Q2 two_pow_pos by simp
    also have "\<dots> = two_pow (bp - 1)" by (simp flip: two_pow_add)
    also have "\<dots> \<le> of_int p" by (rule P1)
    finally show ?thesis using qr by (simp add: x pos_less_divide_eq)
  qed
  have hi: "x < two_pow (bp - bq + 1)"
  proof -
    have "of_int p < two_pow bp" by (rule P2)
    also have "\<dots> = two_pow (bp - bq + 1) * two_pow (bq - 1)" by (simp flip: two_pow_add)
    also have "\<dots> \<le> two_pow (bp - bq + 1) * of_int q"
      using Q1 two_pow_pos[of "bp - bq + 1"] by simp
    finally show ?thesis using qr by (simp add: x pos_divide_less_eq)
  qed
  show ?thesis
    using lo hi pq by (auto simp: ilog2_def Let_def bp_def bq_def)
qed

lemma ilog2_ge: "0 < x \<Longrightarrow> two_pow n \<le> x \<Longrightarrow> n \<le> ilog2 x"
proof (rule ccontr)
  assume a: "0 < x" "two_pow n \<le> x" "\<not> n \<le> ilog2 x"
  then have "ilog2 x + 1 \<le> n" by simp
  then have "two_pow (ilog2 x + 1) \<le> two_pow n" by (rule two_pow_mono)
  with ilog2_bounds[OF a(1)] a(2) show False by simp
qed

lemma ilog2_less: "0 < x \<Longrightarrow> x < two_pow n \<Longrightarrow> ilog2 x < n"
proof (rule ccontr)
  assume a: "0 < x" "x < two_pow n" "\<not> ilog2 x < n"
  then have "two_pow n \<le> two_pow (ilog2 x)" by (simp add: two_pow_mono)
  with ilog2_bounds[OF a(1)] a(2) show False by simp
qed

lemma round_half_even_ge_floor: "\<lfloor>x\<rfloor> \<le> round_half_even x"
  by (simp add: round_half_even_def Let_def)

lemma round_half_even_le_ceiling: "round_half_even x \<le> \<lceil>x\<rceil>"
  unfolding round_half_even_def Let_def
  by (auto simp: ceiling_altdef)

lemma round_half_even_of_int: "round_half_even (of_int n) = n"
  by (simp add: round_half_even_def Let_def)

lemma round_double_nonneg: "0 \<le> x \<Longrightarrow> 0 \<le> round_double x"
proof -
  assume x: "0 \<le> x"
  have "0 \<le> \<bar>x\<bar> / two_pow (grid_exp x)" using two_pow_pos[of "grid_exp x"] by simp
  then have "0 \<le> \<lfloor>\<bar>x\<bar> / two_pow (grid_exp x)\<rfloor>" by simp
  then have "0 \<le> round_half_even (\<bar>x\<bar> / two_pow (grid_exp x))"
    using round_half_even_ge_floor order_trans by blast
  then show ?thesis using x two_pow_pos[of "grid_exp x"]
    by (simp add: round_double_def sgn_if zero_le_mult_iff)
qed

lemma round_double_pos_eq:
  "0 < x \<Longrightarrow> round_double x = of_int (round_half_even (x / two_pow (grid_exp x))) * two_pow (grid_exp x)"
  by (simp add: round_double_def)

lemma round_double_ge_two_pow:
  assumes n: "- 1074 \<le> n" and x: "two_pow n \<le> x"
  shows "two_pow n \<le> round_double x"
proof -
  have xpos: "0 < x" using x two_pow_pos[of n] by simp
  define g where "g = grid_exp x"
  have gp: "0 < two_pow g" by (rule two_pow_pos)
  have rd: "round_double x = of_int (round_half_even (x / two_pow g)) * two_pow g"
    using xpos by (simp add: round_double_pos_eq g_def)
  show ?thesis
  proof (cases "g \<le> n")
    case True
    then have "two_pow (n - g) = of_int (2 ^ nat (n - g))" by (simp add: two_pow_nat)
    moreover have "two_pow (n - g) \<le> x / two_pow g"
      using x gp by (simp add: pos_le_divide_eq flip: two_pow_add)
    ultimately have "2 ^ nat (n - g) \<le> \<lfloor>x / two_pow g\<rfloor>" by (simp add: le_floor_iff)
    then have "2 ^ nat (n - g) \<le> round_half_even (x / two_pow g)"
      using round_half_even_ge_floor order_trans by blast
    then have "(of_int (2 ^ nat (n - g)) :: rat) \<le> of_int (round_half_even (x / two_pow g))"
      by (simp only: of_int_le_iff)
    then have "two_pow (n - g) * two_pow g \<le> of_int (round_half_even (x / two_pow g)) * two_pow g"
      using gp True by (simp add: two_pow_nat)
    then show ?thesis by (simp add: rd flip: two_pow_add)
  next
    case False
    then have gn: "n < g" by simp
    then have "g = ilog2 x - 52" using n xpos by (auto simp: g_def grid_exp_def max_def)
    then have "two_pow (g + 52) \<le> x" using ilog2_bounds[OF xpos] by simp
    then have "two_pow 52 \<le> x / two_pow g"
      using gp by (simp add: pos_le_divide_eq flip: two_pow_add add.commute)
    moreover have "two_pow 52 = of_int (2 ^ 52)" by (simp add: two_pow_def)
    ultimately have "2 ^ 52 \<le> \<lfloor>x / two_pow g\<rfloor>" by (simp add: le_floor_iff)
    moreover have "(1::int) \<le> 2 ^ 52" by simp
    ultimately have "1 \<le> round_half_even (x / two_pow g)"
      using round_half_even_ge_floor[of "x / two_pow g"] by linarith
    then have "(1::rat) \<le> of_int (round_half_even (x / two_pow g))" by linarith
    then have "two_pow g \<le> of_int (round_half_even (x / two_pow g)) * two_pow g"
      using gp by simp
    moreover have "two_pow n \<le> two_pow g" using gn by (simp add: two_pow_mono)
    ultimately show ?thesis by (simp add: rd)
  qed
qed

lemma round_double_le_two_pow:
  assumes n: "- 1074 \<le> n" and x0: "0 \<le> x" and x: "x \<le> two_pow n"
  shows "round_double x \<le> two_pow n"
proof (cases "x = 0")
  case True
  then show ?thesis using two_pow_pos[of n] by (simp add: round_double_def)
next
  case False
  then have xpos: "0 < x" using x0 by simp
  define g where "g = grid_exp x"
  have gp: "0 < two_pow g" by (rule two_pow_pos)
  have rd: "round_double x = of_int (round_half_even (x / two_pow g)) * two_pow g"
    using xpos by (simp add: round_double_pos_eq g_def)
  have "ilog2 x \<le> n"
  proof (rule ccontr)
    assume "\<not> ilog2 x \<le> n"
    then have "two_pow (n + 1) \<le> two_pow (ilog2 x)" by (simp add: two_pow_mono)
    moreover have "two_pow n < two_pow (n + 1)" by (simp add: two_pow_powi power_int_strict_increasing)
    ultimately show False using ilog2_bounds[OF xpos] x by simp
  qed
  then have gn: "g \<le> n" using n xpos by (auto simp: g_def grid_exp_def max_def)
  then have "two_pow (n - g) = of_int (2 ^ nat (n - g))" by (simp add: two_pow_nat)
  moreover have "x / two_pow g \<le> two_pow (n - g)"
    using x gp by (simp add: pos_divide_le_eq flip: two_pow_add)
  ultimately have "\<lceil>x / two_pow g\<rceil> \<le> 2 ^ nat (n - g)" by (simp add: ceiling_le_iff)
  then have "round_half_even (x / two_pow g) \<le> 2 ^ nat (n - g)"
    using round_half_even_le_ceiling order_trans by blast
  then have "(of_int (round_half_even (x / two_pow g)) :: rat) \<le> of_int (2 ^ nat (n - g))"
    by (simp only: of_int_le_iff)
  then have "of_int (round_half_even (x / two_pow g)) * two_pow g \<le> two_pow (n - g) * two_pow g"
    using gp gn by (simp add: two_pow_nat)
  then show ?thesis by (simp add: rd flip: two_pow_add)
qed

section \<open>Type effectiveness\<close>

lemma fl_round_exact_small:
  "fl_round 0 = Fin 0" "fl_round (1/4) = Fin (1/4)" "fl_round (1/2) = Fin (1/2)"
  "fl_round 1 = Fin 1" "fl_round 2 = Fin 2" "fl_round 4 = Fin 4"
  by (code_simp, code_simp, code_simp, code_simp, code_simp, code_simp)

lemma table_rows_listed:
  "list_all (\<lambda>(a, r). list_all (\<lambda>(d, v). v = 0 \<or> v = 1/2 \<or> v = 1 \<or> v = 2) r) TYPE_EFFECTIVENESS"
  by (simp add: TYPE_EFFECTIVENESS_def)

lemma row_get_multiplier:
  assumes "map_of TYPE_EFFECTIVENESS A = Some r"
  shows "row_get r D \<in> multipliers"
proof (cases "map_of r D")
  case None
  then show ?thesis by (simp add: row_get_def multipliers_def)
next
  case (Some v)
  have "(A, r) \<in> set TYPE_EFFECTIVENESS" using assms by (rule map_of_SomeD)
  then have "list_all (\<lambda>(d, v). v = 0 \<or> v = 1/2 \<or> v = 1 \<or> v = 2) r"
    using table_rows_listed by (auto simp: list_all_iff)
  moreover have "(D, v) \<in> set r" using Some by (rule map_of_SomeD)
  ultimately have "v = 0 \<or> v = 1/2 \<or> v = 1 \<or> v = 2" by (auto simp: list_all_iff)
  then show ?thesis using Some by (auto simp: row_get_def multipliers_def)
qed

lemma fl_round_multiplier: "b \<in> multipliers \<Longrightarrow> fl_round b = Fin b"
  unfolding multipliers_def
  by (elim insertE emptyE; hypsubst; simp only: fl_round_exact_small)

lemma fl_round_multiplier_product:
  "a \<in> multipliers \<Longrightarrow> b \<in> multipliers \<Longrightarrow> fl_round (a * b) = Fin (a * b)"
  unfolding multipliers_def
  by (elim insertE emptyE; hypsubst; simp add: fl_round_exact_small)

text \<open>
  Claim C3.  For an attacking element \<open>A\<close> of the table, the effectiveness against a single
  defending element \<open>D\<close> is the entry of the table for \<open>(A, D)\<close>, or \<open>1\<close> when the pair is not
  listed; against two defending elements it is the product of the two single lookups.  This
  holds for the battle's computation and for the one of the type analysis.
\<close>

theorem effectiveness_single_and_pair:
  assumes "map_of TYPE_EFFECTIVENESS A = Some r"
  shows "battle_effectiveness A [D] = Fin (row_get r D)
       \<and> total_effectiveness r [D] = Fin (row_get r D)
       \<and> battle_effectiveness A [D1, D2] = Fin (row_get r D1 * row_get r D2)
       \<and> total_effectiveness r [D1, D2] = Fin (row_get r D1 * row_get r D2)"
  using assms row_get_multiplier[OF assms, of D] row_get_multiplier[OF assms, of D1]
    row_get_multiplier[OF assms, of D2]
  by (simp add: battle_effectiveness_def total_effectiveness_def fl_round_multiplier
      fl_round_multiplier_product)

theorem effectiveness_single_and_pair_witness:
  "battle_effectiveness ''fire'' [''grass''] = Fin 2
   \<and> battle_effectiveness ''fire'' [''grass'', ''steel''] = Fin 4
   \<and> battle_effectiveness ''fire'' [''dragon''] = Fin 1"
proof -
  have h: "map_of TYPE_EFFECTIVENESS ''fire'' = Some fire_row"
    by code_simp
  have r: "row_get fire_row ''grass'' = 2" "row_get fire_row ''steel'' = 2"
    "row_get fire_row ''dragon'' = 1"
    by (code_simp, code_simp, code_simp)
  note t = effectiveness_single_and_pair[OF h]
  have "battle_effectiveness ''fire'' [''grass''] = Fin 2"
    using t[of "''grass''"] by (simp only: r)
  moreover have "battle_effectiveness ''fire'' [''grass'', ''steel''] = Fin 4"
    using t[of _ "''grass''" "''steel''"] by (simp only: r) simp
  moreover have "battle_effectiveness ''fire'' [''dragon''] = Fin 1"
    using t[of "''dragon''"] by (simp only: r)
  ultimately show ?thesis by blast
qed

lemma effectiveness_loop_empty_row:
  "effectiveness_loop [] ds (Fin 1) = Fin 1"
  by (induction ds) (simp_all add: row_get_def fl_round_exact_small)

text \<open>
  Claim C4, as stated, fails: in the battle an attacking element that the table does not know
  is no fault; \<open>TYPE_EFFECTIVENESS.get(move_type, {})\<close> makes every lookup \<open>1\<close>.
\<close>

theorem unknown_attacking_counterexample:
  "map_of TYPE_EFFECTIVENESS ''shadow'' = None \<and> battle_effectiveness ''shadow'' [''ghost''] = Fin 1"
  by code_simp

text \<open>
  Claim C4, amended.  The single-pair query (with any lower-casing of its two arguments) reports
  an invalid type for an unknown attacking element, and the multiplier \<open>1\<close>, normal
  effectiveness, for an unknown defending element.  The battle yields the multiplier \<open>1\<close> for
  an unknown attacking element, whatever the defender.  In the battle an unknown defending
  element counts as \<open>1\<close>: alone it gives \<open>1\<close>, and next to a second element it gives the entry
  of that element.
\<close>

theorem unknown_elements:
  "(map_of TYPE_EFFECTIVENESS (lower A) = None \<longrightarrow>
      get_type_effectiveness lower A D = InvalidType (lower A))
   \<and> (map_of TYPE_EFFECTIVENESS (lower A) = Some r \<and> map_of r (lower D) = None \<longrightarrow>
      get_type_effectiveness lower A D = Matchup (lower A) (lower D) NormalEffectiveness)
   \<and> (map_of TYPE_EFFECTIVENESS mt = None \<longrightarrow> battle_effectiveness mt ds = Fin 1)
   \<and> (map_of TYPE_EFFECTIVENESS mt = Some r' \<and> map_of r' d = None \<longrightarrow>
      battle_effectiveness mt [d] = Fin 1
      \<and> battle_effectiveness mt [d, d2] = Fin (row_get r' d2)
      \<and> battle_effectiveness mt [d1, d] = Fin (row_get r' d1))"
proof (intro conjI impI)
  assume "map_of TYPE_EFFECTIVENESS (lower A) = None"
  then show "get_type_effectiveness lower A D = InvalidType (lower A)"
    by (simp add: get_type_effectiveness_def)
next
  assume "map_of TYPE_EFFECTIVENESS (lower A) = Some r \<and> map_of r (lower D) = None"
  then show "get_type_effectiveness lower A D = Matchup (lower A) (lower D) NormalEffectiveness"
    by (simp add: get_type_effectiveness_def row_get_def)
next
  assume "map_of TYPE_EFFECTIVENESS mt = None"
  then show "battle_effectiveness mt ds = Fin 1"
    by (simp add: battle_effectiveness_def effectiveness_loop_empty_row)
next
  assume a: "map_of TYPE_EFFECTIVENESS mt = Some r' \<and> map_of r' d = None"
  then have k: "map_of TYPE_EFFECTIVENESS mt = Some r'" and u: "row_get r' d = 1"
    by (simp_all add: row_get_def)
  note m = row_get_multiplier[OF k]
  show "battle_effectiveness mt [d] = Fin 1"
    using k u by (simp add: battle_effectiveness_def fl_round_exact_small)
  show "battle_effectiveness mt [d, d2] = Fin (row_get r' d2)"
    using k u m[of d2] by (simp add: battle_effectiveness_def fl_round_exact_small fl_round_multiplier)
  show "battle_effectiveness mt [d1, d] = Fin (row_get r' d1)"
    using k u m[of d1] by (simp add: battle_effectiveness_def fl_round_multiplier)
qed

theorem unknown_elements_witness:
  "get_type_effectiveness ascii_lower ''Shadow'' ''Fire'' = InvalidType ''shadow''
   \<and> get_type_effectiveness ascii_lower ''FIRE'' ''Shadow''
       = Matchup ''fire'' ''shadow'' NormalEffectiveness
   \<and> battle_effectiveness ''shadow'' [''ghost'', ''dark''] = Fin 1
   \<and> battle_effectiveness ''fire'' [''shadow''] = Fin 1
   \<and> battle_effectiveness ''fire'' [''shadow'', ''grass''] = Fin 2
   \<and> battle_effectiveness ''fire'' [''water'', ''shadow''] = Fin (1 / 2)"
proof -
  have l: "ascii_lower ''Shadow'' = ''shadow''" "ascii_lower ''FIRE'' = ''fire''"
    "ascii_lower ''Fire'' = ''fire''"
    by (code_simp, code_simp, code_simp)
  have u: "map_of TYPE_EFFECTIVENESS ''shadow'' = None" by code_simp
  have k: "map_of TYPE_EFFECTIVENESS ''fire'' = Some fire_row" by code_simp
  have d: "map_of fire_row ''shadow'' = None" by code_simp
  have g: "row_get fire_row ''grass'' = 2" "row_get fire_row ''water'' = 1 / 2"
    by (code_simp, code_simp)
  note t1 = unknown_elements[where lower = ascii_lower and A = "''Shadow''" and D = "''Fire''"
      and mt = "''shadow''" and ds = "[''ghost'', ''dark'']"]
  note t2 = unknown_elements[where lower = ascii_lower and A = "''FIRE''" and D = "''Shadow''"
      and r = fire_row and mt = "''fire''" and r' = fire_row and d = "''shadow''"
      and ?d2.0 = "''grass''" and ?d1.0 = "''water''"]
  show ?thesis using t1 t2 u k d by (simp add: l g)
qed

subsection \<open>The breakdown\<close>

lemma weak_not_resistant: "\<not> (is_weak t \<and> is_resistant t)"
  by (cases t) (auto simp: is_weak_def is_resistant_def fl_le_def fl_eq_def)

lemma weak_not_immune: "\<not> (is_weak t \<and> is_immune t)"
  by (cases t) (auto simp: is_weak_def is_immune_def fl_le_def fl_eq_def)

lemma resistant_not_immune: "\<not> (is_resistant t \<and> is_immune t)"
  by (cases t) (auto simp: is_resistant_def is_immune_def fl_le_def fl_eq_def)

lemmas buckets_exclusive = weak_not_resistant weak_not_immune resistant_not_immune

lemma bucket_cases:
  "bucket a t b =
     (if is_weak t then b\<lparr>weaknesses := weaknesses b @ [(a, weak_label t)]\<rparr>
      else if is_resistant t then b\<lparr>resistances := resistances b @ [(a, resistant_label t)]\<rparr>
      else if is_immune t then b\<lparr>immunities := immunities b @ [a]\<rparr>
      else b)"
  by (simp add: bucket_def is_weak_def is_resistant_def is_immune_def weak_label_def
      resistant_label_def)

lemma breakdown_loop_filters:
  "weaknesses (breakdown_loop tbl ts b) =
     weaknesses b @ map (\<lambda>(a, r). (a, weak_label (total_effectiveness r ts)))
                      (filter (\<lambda>(a, r). is_weak (total_effectiveness r ts)) tbl)
   \<and> resistances (breakdown_loop tbl ts b) =
     resistances b @ map (\<lambda>(a, r). (a, resistant_label (total_effectiveness r ts)))
                      (filter (\<lambda>(a, r). is_resistant (total_effectiveness r ts)) tbl)
   \<and> immunities (breakdown_loop tbl ts b) =
     immunities b @ map fst (filter (\<lambda>(a, r). is_immune (total_effectiveness r ts)) tbl)"
proof (induction tbl arbitrary: b)
  case Nil
  then show ?case by simp
next
  case (Cons p tbl)
  obtain a r where p: "p = (a, r)" by (cases p)
  show ?case
    using buckets_exclusive[of "total_effectiveness r ts"]
    by (auto simp: p Cons.IH bucket_cases)
qed

lemma table_keys: "length TYPE_EFFECTIVENESS = 18" "distinct (map fst TYPE_EFFECTIVENESS)"
  by (simp_all add: TYPE_EFFECTIVENESS_def)

lemma distinct_three_filters:
  assumes d: "distinct (map fst xs)"
    and e: "\<And>x. x \<in> set xs \<Longrightarrow> \<not> (P x \<and> Q x) \<and> \<not> (P x \<and> R x) \<and> \<not> (Q x \<and> R x)"
  shows "distinct (map fst (filter P xs) @ map fst (filter Q xs) @ map fst (filter R xs))"
proof -
  have inj: "inj_on fst (set xs)" using d by (simp add: distinct_map)
  have 1: "distinct (map fst (filter P xs))" "distinct (map fst (filter Q xs))"
    "distinct (map fst (filter R xs))"
    using d by (simp_all add: distinct_map_filter)
  have 2: "fst ` set (filter P xs) \<inter> fst ` set (filter Q xs) = {}"
    "fst ` set (filter P xs) \<inter> fst ` set (filter R xs) = {}"
    "fst ` set (filter Q xs) \<inter> fst ` set (filter R xs) = {}"
    using inj e by (auto dest: inj_onD)
  show ?thesis using 1 2 by (simp add: Int_Un_distrib)
qed

text \<open>
  Claim C9.  The table has 18 attacking elements, all different.  The breakdown lists as weak
  exactly those whose compound multiplier against the defender is at least 2, as resistant
  those whose multiplier is positive and at most 0.5, as immune those whose multiplier is 0, each
  in the order of the table; the others are in no list.  No element is in two lists or twice in
  one.  A weak entry is labelled \<open>4x\<close> when its multiplier is 4 and \<open>2x\<close> otherwise; a resistant
  entry \<open>0.25x\<close> when its multiplier is 0.25 and \<open>0.5x\<close> otherwise.
\<close>

theorem breakdown_partition:
  "length TYPE_EFFECTIVENESS = 18
   \<and> distinct (map fst TYPE_EFFECTIVENESS)
   \<and> weaknesses (type_breakdown ts) =
       map (\<lambda>(a, r). (a, if fl_eq (total_effectiveness r ts) (Fin 4) then ''4x'' else ''2x''))
         (filter (\<lambda>(a, r). fl_le (Fin 2) (total_effectiveness r ts)) TYPE_EFFECTIVENESS)
   \<and> resistances (type_breakdown ts) =
       map (\<lambda>(a, r). (a, if fl_eq (total_effectiveness r ts) (Fin (1 / 4)) then ''0.25x'' else ''0.5x''))
         (filter (\<lambda>(a, r). fl_le (total_effectiveness r ts) (Fin (1 / 2))
                          \<and> fl_less (Fin 0) (total_effectiveness r ts)) TYPE_EFFECTIVENESS)
   \<and> immunities (type_breakdown ts) =
       map fst (filter (\<lambda>(a, r). fl_eq (total_effectiveness r ts) (Fin 0)) TYPE_EFFECTIVENESS)
   \<and> distinct (map fst (weaknesses (type_breakdown ts)) @ map fst (resistances (type_breakdown ts))
                @ immunities (type_breakdown ts))"
proof -
  let ?b = "type_breakdown ts"
  have f: "weaknesses ?b = map (\<lambda>(a, r). (a, weak_label (total_effectiveness r ts)))
                      (filter (\<lambda>(a, r). is_weak (total_effectiveness r ts)) TYPE_EFFECTIVENESS)"
    "resistances ?b = map (\<lambda>(a, r). (a, resistant_label (total_effectiveness r ts)))
                      (filter (\<lambda>(a, r). is_resistant (total_effectiveness r ts)) TYPE_EFFECTIVENESS)"
    "immunities ?b = map fst (filter (\<lambda>(a, r). is_immune (total_effectiveness r ts)) TYPE_EFFECTIVENESS)"
    using breakdown_loop_filters[of TYPE_EFFECTIVENESS ts "\<lparr>weaknesses = [], resistances = [], immunities = []\<rparr>"]
    by (simp_all add: type_breakdown_def)
  have m: "map fst (map (\<lambda>(a, r). (a, g r)) xs) = map fst xs" for g :: "row \<Rightarrow> string" and xs :: "(string \<times> row) list"
    by (induction xs) auto
  have "distinct (map fst (filter (\<lambda>(a, r). is_weak (total_effectiveness r ts)) TYPE_EFFECTIVENESS)
      @ map fst (filter (\<lambda>(a, r). is_resistant (total_effectiveness r ts)) TYPE_EFFECTIVENESS)
      @ map fst (filter (\<lambda>(a, r). is_immune (total_effectiveness r ts)) TYPE_EFFECTIVENESS))"
    using buckets_exclusive by (intro distinct_three_filters[OF table_keys(2)]) blast
  then have d: "distinct (map fst (weaknesses ?b) @ map fst (resistances ?b) @ immunities ?b)"
    by (simp only: f m[of "\<lambda>r. weak_label (total_effectiveness r ts)"]
        m[of "\<lambda>r. resistant_label (total_effectiveness r ts)"])
  show ?thesis
    using f d table_keys
    by (simp add: is_weak_def is_resistant_def is_immune_def weak_label_def resistant_label_def)
qed

theorem breakdown_partition_witness:
  "weaknesses (type_breakdown [''grass'', ''poison'']) =
     [(''fire'', ''2x''), (''ice'', ''2x''), (''flying'', ''2x''), (''psychic'', ''2x'')]
   \<and> resistances (type_breakdown [''grass'', ''poison'']) =
     [(''water'', ''0.5x''), (''electric'', ''0.5x''), (''grass'', ''0.25x''), (''fighting'', ''0.5x''),
      (''fairy'', ''0.5x'')]
   \<and> immunities (type_breakdown [''ghost'']) = [''normal'', ''fighting'']"
proof -
  have "weaknesses (type_breakdown [''grass'', ''poison'']) =
       map (\<lambda>(a, r). (a, if fl_eq (total_effectiveness r [''grass'', ''poison'']) (Fin 4) then ''4x'' else ''2x''))
         (filter (\<lambda>(a, r). fl_le (Fin 2) (total_effectiveness r [''grass'', ''poison''])) TYPE_EFFECTIVENESS)"
    using breakdown_partition[of "[''grass'', ''poison'']"] by blast
  also have "\<dots> = [(''fire'', ''2x''), (''ice'', ''2x''), (''flying'', ''2x''), (''psychic'', ''2x'')]"
    by (simp add: TYPE_EFFECTIVENESS_def total_effectiveness_def row_get_def fl_round_exact_small
        fl_le_def fl_eq_def)
  finally have w: "weaknesses (type_breakdown [''grass'', ''poison'']) =
     [(''fire'', ''2x''), (''ice'', ''2x''), (''flying'', ''2x''), (''psychic'', ''2x'')]" .
  have "resistances (type_breakdown [''grass'', ''poison'']) =
       map (\<lambda>(a, r). (a, if fl_eq (total_effectiveness r [''grass'', ''poison'']) (Fin (1 / 4)) then ''0.25x'' else ''0.5x''))
         (filter (\<lambda>(a, r). fl_le (total_effectiveness r [''grass'', ''poison'']) (Fin (1 / 2))
                          \<and> fl_less (Fin 0) (total_effectiveness r [''grass'', ''poison''])) TYPE_EFFECTIVENESS)"
    using breakdown_partition[of "[''grass'', ''poison'']"] by blast
  also have "\<dots> = [(''water'', ''0.5x''), (''electric'', ''0.5x''), (''grass'', ''0.25x''),
      (''fighting'', ''0.5x''), (''fairy'', ''0.5x'')]"
    by (simp add: TYPE_EFFECTIVENESS_def total_effectiveness_def row_get_def fl_round_exact_small
        fl_le_def fl_eq_def)
  finally have r: "resistances (type_breakdown [''grass'', ''poison'']) =
     [(''water'', ''0.5x''), (''electric'', ''0.5x''), (''grass'', ''0.25x''), (''fighting'', ''0.5x''),
      (''fairy'', ''0.5x'')]" .
  have "immunities (type_breakdown [''ghost'']) =
       map fst (filter (\<lambda>(a, r). fl_eq (total_effectiveness r [''ghost'']) (Fin 0)) TYPE_EFFECTIVENESS)"
    using breakdown_partition[of "[''ghost'']"] by blast
  also have "\<dots> = [''normal'', ''fighting'']"
    by (simp add: TYPE_EFFECTIVENESS_def total_effectiveness_def row_get_def fl_round_exact_small
        fl_le_def fl_eq_def)
  finally have i: "immunities (type_breakdown [''ghost'']) = [''normal'', ''fighting'']" .
  show ?thesis using w r i by blast
qed

section \<open>The damage calculation\<close>

lemma two_pow_strict_mono: "a < b \<Longrightarrow> two_pow a < two_pow b"
  by (simp add: two_pow_powi power_int_strict_increasing)

lemma bounded_fl_nonneg: "bounded_fl n x \<Longrightarrow> nonneg_fl x"
  by (cases x) (simp_all add: bounded_fl_def nonneg_fl_def)

lemma bounded_fl_mono: "bounded_fl m x \<Longrightarrow> m \<le> n \<Longrightarrow> bounded_fl n x"
  using two_pow_mono[of m n] by (cases x) (auto simp: bounded_fl_def)

lemma fl_round_nonneg: "0 \<le> x \<Longrightarrow> nonneg_fl (fl_round x)"
  using round_double_nonneg[of x]
  by (auto simp: fl_round_def nonneg_fl_def Let_def)

lemma fl_round_within:
  assumes "0 \<le> x" "x \<le> two_pow n" "- 1074 \<le> n" "n < 1024"
  shows "fl_round x = Fin (round_double x) \<and> bounded_fl n (fl_round x)"
proof -
  let ?r = "round_double x"
  have r0: "0 \<le> ?r" using assms(1) by (rule round_double_nonneg)
  have rn: "?r \<le> two_pow n" using assms by (intro round_double_le_two_pow) auto
  have "fl_round x = Fin ?r"
  proof (cases "?r = 0")
    case True
    then show ?thesis by (simp add: fl_round_def)
  next
    case False
    then have pos: "0 < ?r" using r0 by simp
    have "two_pow n < two_pow 1024"
      using assms(4) by (rule two_pow_strict_mono)
    then have "?r < two_pow 1024" using rn by simp
    then have "ilog2 ?r < 1024" using pos by (intro ilog2_less) auto
    then show ?thesis using pos by (simp add: fl_round_def Let_def)
  qed
  then show ?thesis using r0 rn by (simp add: bounded_fl_def)
qed

lemma fl_round_bounded:
  "0 \<le> x \<Longrightarrow> x \<le> two_pow n \<Longrightarrow> - 1074 \<le> n \<Longrightarrow> n < 1024 \<Longrightarrow> bounded_fl n (fl_round x)"
  using fl_round_within by blast

lemma fl_mul_nonneg: "nonneg_fl x \<Longrightarrow> nonneg_fl y \<Longrightarrow> nonneg_fl (fl_mul x y)"
  by (cases x; cases y)
     (auto simp: nonneg_fl_def inf_of_sign_def sgn_if fl_round_nonneg[unfolded nonneg_fl_def]
       intro: fl_round_nonneg[unfolded nonneg_fl_def] split: pyfloat.splits)

lemma fl_add_nonneg: "nonneg_fl x \<Longrightarrow> nonneg_fl y \<Longrightarrow> nonneg_fl (fl_add x y)"
  by (cases x; cases y)
     (auto simp: nonneg_fl_def intro: fl_round_nonneg[unfolded nonneg_fl_def])

lemma fl_truediv_nonneg:
  "nonneg_fl x \<Longrightarrow> 0 < c \<Longrightarrow> \<exists>y. fl_truediv x (Fin c) = Ok y \<and> nonneg_fl y"
  by (cases x) (auto simp: nonneg_fl_def inf_of_sign_def intro: fl_round_nonneg[unfolded nonneg_fl_def])

lemma int_truediv_nonneg:
  "0 \<le> a \<Longrightarrow> 0 < d \<Longrightarrow> int_truediv a d = Ok y \<Longrightarrow> nonneg_fl y"
  using fl_round_nonneg[of "of_int a / of_int d"]
  by (auto simp: int_truediv_def nonneg_fl_def split: pyfloat.splits)

lemma float_of_int_nonneg: "0 \<le> i \<Longrightarrow> float_of_int i = Ok y \<Longrightarrow> nonneg_fl y"
  using fl_round_nonneg[of "of_int i"]
  by (auto simp: float_of_int_def nonneg_fl_def split: pyfloat.splits)

lemma int_of_float_floor: "nonneg_fl v \<Longrightarrow> int_of_float v = fl_floor v"
  by (cases v) (simp_all add: nonneg_fl_def trunc_def)

lemma int_of_float_nonneg: "nonneg_fl v \<Longrightarrow> int_of_float v = Ok d \<Longrightarrow> 0 \<le> d"
  by (cases v) (auto simp: nonneg_fl_def trunc_def)

lemma damage_value_spec:
  "damage_value pw atk dfn eff =
     bind_r (spec_base pw atk dfn) (\<lambda>base. Ok (fl_add (fl_mul base eff) (Fin 2)))"
  by (simp add: damage_value_def spec_base_def bind_r_def split: result.splits)

lemma spec_base_nonneg:
  assumes "0 < pw" "0 < atk" "0 < dfn" "spec_base pw atk dfn = Ok base"
  shows "nonneg_fl base"
proof -
  obtain c p ratio where c: "int_truediv 2 5 = Ok c" and p: "float_of_int pw = Ok p"
    and r: "int_truediv atk dfn = Ok ratio"
    and b: "fl_truediv (fl_mul (fl_mul (fl_add c (Fin 2)) p) ratio) (Fin 50) = Ok base"
    using assms(4) by (auto simp: spec_base_def bind_r_def split: result.splits)
  have "nonneg_fl c" using c by (intro int_truediv_nonneg[of 2 5]) auto
  moreover have "nonneg_fl p" using p assms(1) by (intro float_of_int_nonneg[of pw]) auto
  moreover have "nonneg_fl ratio" using r assms(2,3) by (intro int_truediv_nonneg[of atk dfn]) auto
  moreover have "nonneg_fl (Fin 2)" by (simp add: nonneg_fl_def)
  ultimately have "nonneg_fl (fl_mul (fl_mul (fl_add c (Fin 2)) p) ratio)"
    by (intro fl_mul_nonneg fl_add_nonneg)
  then show ?thesis using b fl_truediv_nonneg[of _ 50] by fastforce
qed

lemma calc_damage_is_spec_damage:
  assumes "0 < pw" "0 < atk" "0 < dfn" "nonneg_fl eff"
  shows "calc_damage pw atk dfn eff st = spec_damage pw atk dfn eff (st = Some ''burn'')"
proof (cases "spec_base pw atk dfn")
  case (Ok base)
  have nb: "nonneg_fl base" using assms Ok by (intro spec_base_nonneg)
  let ?v = "fl_add (fl_mul base eff) (Fin 2)"
  have nv: "nonneg_fl ?v"
    using nb assms(4) by (intro fl_add_nonneg fl_mul_nonneg) (simp_all add: nonneg_fl_def)
  have fv: "int_of_float ?v = fl_floor ?v" using nv by (rule int_of_float_floor)
  show ?thesis
  proof (cases "fl_floor ?v")
    case (Ok d)
    then have d0: "0 \<le> d" using nv fv int_of_float_nonneg by metis
    have h: "int_of_float (fl_mul y (Fin (1 / 2))) = fl_floor (fl_mul y (Fin (1 / 2)))"
      if "float_of_int d = Ok y" for y
      using float_of_int_nonneg[OF d0 that]
      by (intro int_of_float_floor fl_mul_nonneg) (simp_all add: nonneg_fl_def)
    show ?thesis
      using \<open>spec_base pw atk dfn = Ok base\<close> Ok fv h
      by (auto simp: calc_damage_def spec_damage_def damage_value_spec bind_r_def split: result.splits)
  qed (use \<open>spec_base pw atk dfn = Ok base\<close> fv in
        \<open>simp_all add: calc_damage_def spec_damage_def damage_value_spec bind_r_def\<close>)
qed (simp_all add: calc_damage_def spec_damage_def damage_value_spec bind_r_def)

subsection \<open>Effectiveness is never negative\<close>

lemma row_get_range:
  "0 \<le> row_get (case map_of TYPE_EFFECTIVENESS mt of None \<Rightarrow> [] | Some r \<Rightarrow> r) d
   \<and> row_get (case map_of TYPE_EFFECTIVENESS mt of None \<Rightarrow> [] | Some r \<Rightarrow> r) d \<le> 2"
proof (cases "map_of TYPE_EFFECTIVENESS mt")
  case None
  then show ?thesis by (simp add: row_get_def)
next
  case (Some r)
  then show ?thesis using row_get_multiplier[OF Some, of d] by (auto simp: multipliers_def)
qed

lemma effectiveness_loop_nonneg:
  assumes "\<And>d. 0 \<le> row_get r d"
  shows "nonneg_fl acc \<Longrightarrow> nonneg_fl (effectiveness_loop r ds acc)"
proof (induction ds arbitrary: acc)
  case Nil
  then show ?case by simp
next
  case (Cons d ds)
  have "nonneg_fl (fl_mul acc (Fin (row_get r d)))"
    using Cons.prems assms[of d] by (intro fl_mul_nonneg) (simp_all add: nonneg_fl_def)
  then show ?case using Cons.IH by simp
qed

lemma battle_effectiveness_nonneg: "nonneg_fl (battle_effectiveness mt ts)"
  unfolding battle_effectiveness_def
  by (rule effectiveness_loop_nonneg) (use row_get_range in \<open>simp_all add: nonneg_fl_def\<close>)

subsection \<open>Bounds\<close>

lemma two_pow_0: "two_pow 0 = 1" and two_pow_1: "two_pow 1 = 2" and two_pow_2: "two_pow 2 = 4"
  by (simp_all add: two_pow_def)

lemma fl_mul_bounded:
  assumes "bounded_fl m x" "bounded_fl n y" "- 1074 \<le> m + n" "m + n < 1024"
  shows "bounded_fl (m + n) (fl_mul x y)"
proof -
  obtain a b where x: "x = Fin a" "0 \<le> a" "a \<le> two_pow m" and y: "y = Fin b" "0 \<le> b" "b \<le> two_pow n"
    using assms(1,2) by (auto simp: bounded_fl_def split: pyfloat.splits)
  have "a * b \<le> two_pow m * two_pow n" using x y by (intro mult_mono) auto
  then have "a * b \<le> two_pow (m + n)" by (simp add: two_pow_add)
  moreover have "0 \<le> a * b" using x y by simp
  ultimately have "bounded_fl (m + n) (fl_round (a * b))" using assms(3,4) by (intro fl_round_bounded)
  then show ?thesis by (simp add: x y)
qed

lemma fl_add_bounded:
  assumes "bounded_fl m x" "bounded_fl n y" "m \<le> k" "n \<le> k" "- 1074 \<le> k + 1" "k + 1 < 1024"
  shows "bounded_fl (k + 1) (fl_add x y)"
proof -
  obtain a b where x: "x = Fin a" "0 \<le> a" "a \<le> two_pow m" and y: "y = Fin b" "0 \<le> b" "b \<le> two_pow n"
    using assms(1,2) by (auto simp: bounded_fl_def split: pyfloat.splits)
  have "a \<le> two_pow k" "b \<le> two_pow k"
    using x y two_pow_mono[OF assms(3)] two_pow_mono[OF assms(4)] by auto
  then have "a + b \<le> two_pow k * 2" by simp
  also have "\<dots> = two_pow (k + 1)" by (simp add: two_pow_add two_pow_1)
  finally have "a + b \<le> two_pow (k + 1)" .
  moreover have "0 \<le> a + b" using x y by simp
  ultimately have "bounded_fl (k + 1) (fl_round (a + b))" using assms(5,6) by (intro fl_round_bounded)
  then show ?thesis by (simp add: x y)
qed

lemma fl_truediv_bounded:
  assumes "bounded_fl n x" "1 \<le> c" "- 1074 \<le> n" "n < 1024"
  shows "\<exists>y. fl_truediv x (Fin c) = Ok y \<and> bounded_fl n y"
proof -
  obtain a where x: "x = Fin a" "0 \<le> a" "a \<le> two_pow n"
    using assms(1) by (auto simp: bounded_fl_def split: pyfloat.splits)
  have "a / c \<le> a" using x(2) assms(2) by (simp add: divide_le_eq mult_left_mono[of 1 c a, simplified])
  then have "a / c \<le> two_pow n" using x(3) by simp
  moreover have "0 \<le> a / c" using x(2) assms(2) by simp
  ultimately have "bounded_fl n (fl_round (a / c))" using assms(3,4) by (intro fl_round_bounded)
  then show ?thesis using assms(2) by (simp add: x)
qed

lemma two_pow_53: "two_pow 53 = 2 ^ 53"
  by (simp add: two_pow_def)

lemma float_of_int_bounded:
  assumes "0 \<le> i" "i \<le> 2 ^ n" "n < 1024"
  shows "\<exists>y. float_of_int i = Ok y \<and> bounded_fl (int n) y"
proof -
  have "(of_int i :: rat) \<le> of_int (2 ^ n)" using assms(2) by (simp only: of_int_le_iff)
  then have "of_int i \<le> two_pow (int n)" by (simp add: two_pow_def)
  then have "bounded_fl (int n) (fl_round (of_int i))"
    using assms by (intro fl_round_bounded) auto
  then show ?thesis by (auto simp: float_of_int_def bounded_fl_def split: pyfloat.splits)
qed

lemma int_truediv_bounded:
  assumes "0 \<le> a" "a \<le> 2 ^ n" "0 < d" "n < 1024"
  shows "\<exists>y. int_truediv a d = Ok y \<and> bounded_fl (int n) y"
proof -
  have "(of_int a :: rat) \<le> of_int (2 ^ n)" using assms(2) by (simp only: of_int_le_iff)
  then have an: "of_int a \<le> two_pow (int n)" by (simp add: two_pow_def)
  have d1: "(1::rat) \<le> of_int d" using assms(3) by linarith
  have a0: "(0::rat) \<le> of_int a" using assms(1) by simp
  have "(of_int a :: rat) / of_int d \<le> of_int a"
    using a0 d1 by (simp add: divide_le_eq mult_left_mono[of 1 "of_int d" "of_int a", simplified])
  then have "(of_int a :: rat) / of_int d \<le> two_pow (int n)" using an by simp
  moreover have "(0::rat) \<le> of_int a / of_int d" using a0 d1 by simp
  ultimately have "bounded_fl (int n) (fl_round (of_int a / of_int d))"
    using assms by (intro fl_round_bounded) auto
  then show ?thesis using assms(3)
    by (auto simp: int_truediv_def bounded_fl_def split: pyfloat.splits)
qed

subsection \<open>The damage is defined on statistics in range\<close>

lemma bounded_fl_Fin: "0 \<le> a \<Longrightarrow> a \<le> two_pow n \<Longrightarrow> bounded_fl n (Fin a)"
  by (simp add: bounded_fl_def)

lemma spec_base_bounded:
  assumes "stat_ok pw" "stat_ok atk" "stat_ok dfn"
  shows "\<exists>base. spec_base pw atk dfn = Ok base \<and> bounded_fl 108 base"
proof -
  obtain c where c: "int_truediv 2 5 = Ok c" "bounded_fl 1 c"
    using int_truediv_bounded[of 2 1 5] by auto
  have two: "bounded_fl 1 (Fin 2)" by (simp add: bounded_fl_def two_pow_1)
  have s: "bounded_fl 2 (fl_add c (Fin 2))"
    using fl_add_bounded[OF c(2) two, of 1] by simp
  obtain p where p: "float_of_int pw = Ok p" "bounded_fl 53 p"
    using float_of_int_bounded[of pw 53] assms(1) by (auto simp: stat_ok_def)
  obtain ratio where r: "int_truediv atk dfn = Ok ratio" "bounded_fl 53 ratio"
    using int_truediv_bounded[of atk 53 dfn] assms(2,3) by (auto simp: stat_ok_def)
  have "bounded_fl 55 (fl_mul (fl_add c (Fin 2)) p)"
    using fl_mul_bounded[OF s p(2)] by simp
  then have "bounded_fl 108 (fl_mul (fl_mul (fl_add c (Fin 2)) p) ratio)"
    using fl_mul_bounded[OF _ r(2), of 55] by simp
  then obtain base where
    "fl_truediv (fl_mul (fl_mul (fl_add c (Fin 2)) p) ratio) (Fin 50) = Ok base" "bounded_fl 108 base"
    using fl_truediv_bounded[of 108 _ 50] by auto
  then show ?thesis using c p r by (simp add: spec_base_def bind_r_def)
qed

lemma damage_value_bounded:
  assumes "stat_ok pw" "stat_ok atk" "stat_ok dfn" "bounded_fl 2 eff"
  shows "\<exists>v. damage_value pw atk dfn eff = Ok v \<and> bounded_fl 111 v"
proof -
  obtain base where b: "spec_base pw atk dfn = Ok base" "bounded_fl 108 base"
    using spec_base_bounded[OF assms(1-3)] by auto
  have two: "bounded_fl 1 (Fin 2)" by (simp add: bounded_fl_def two_pow_1)
  have "bounded_fl 110 (fl_mul base eff)" using fl_mul_bounded[OF b(2) assms(4)] by simp
  then have "bounded_fl 111 (fl_add (fl_mul base eff) (Fin 2))"
    using fl_add_bounded[OF _ two, of 110 _ 110] by simp
  then show ?thesis using b by (simp add: damage_value_spec bind_r_def)
qed

lemma int_of_float_bounded:
  assumes "bounded_fl (int n) v"
  shows "\<exists>d. int_of_float v = Ok d \<and> 0 \<le> d \<and> d \<le> 2 ^ n"
proof -
  obtain a where a: "v = Fin a" "0 \<le> a" "a \<le> two_pow (int n)"
    using assms by (auto simp: bounded_fl_def split: pyfloat.splits)
  have "a \<le> of_int (2 ^ n)" using a(3) by (simp add: two_pow_def)
  then have "\<lfloor>a\<rfloor> \<le> \<lfloor>(of_int (2 ^ n) :: rat)\<rfloor>" by (rule floor_mono)
  then have "\<lfloor>a\<rfloor> \<le> 2 ^ n" by (simp only: floor_of_int)
  then show ?thesis using a by (simp add: trunc_def)
qed

lemma calc_damage_defined:
  assumes "stat_ok pw" "stat_ok atk" "stat_ok dfn" "bounded_fl 2 eff"
  shows "\<exists>d. calc_damage pw atk dfn eff st = Ok d"
proof -
  obtain v where v: "damage_value pw atk dfn eff = Ok v" "bounded_fl 111 v"
    using damage_value_bounded[OF assms] by auto
  obtain d where d: "int_of_float v = Ok d" "0 \<le> d" "d \<le> 2 ^ 111"
    using int_of_float_bounded[of 111 v] v(2) by auto
  obtain y where y: "float_of_int d = Ok y" "bounded_fl 111 y"
    using float_of_int_bounded[of d 111] d by auto
  have "bounded_fl 0 (Fin (1 / 2))" by (simp add: bounded_fl_def two_pow_0)
  then have "bounded_fl 111 (fl_mul y (Fin (1 / 2)))"
    using fl_mul_bounded[OF y(2), of 0] by simp
  then obtain d' where "int_of_float (fl_mul y (Fin (1 / 2))) = Ok d'"
    using int_of_float_bounded[of 111] by auto
  then show ?thesis using v d y by (simp add: calc_damage_def bind_r_def)
qed

lemma effectiveness_loop_bounded:
  assumes r: "\<And>d. 0 \<le> row_get r d \<and> row_get r d \<le> 2"
  shows "bounded_fl k acc \<Longrightarrow> - 1074 \<le> k \<Longrightarrow> k + int (length ds) < 1024 \<Longrightarrow>
         bounded_fl (k + int (length ds)) (effectiveness_loop r ds acc)"
proof (induction ds arbitrary: k acc)
  case Nil
  then show ?case by simp
next
  case (Cons d ds)
  have "bounded_fl 1 (Fin (row_get r d))" using r[of d] by (simp add: bounded_fl_def two_pow_1)
  then have "bounded_fl (k + 1) (fl_mul acc (Fin (row_get r d)))"
    using fl_mul_bounded[OF Cons.prems(1), of 1] Cons.prems by simp
  then have "bounded_fl (k + 1 + int (length ds)) (effectiveness_loop r ds (fl_mul acc (Fin (row_get r d))))"
    using Cons.prems by (intro Cons.IH) auto
  moreover have "k + 1 + int (length ds) = k + int (length (d # ds))" by simp
  ultimately show ?case by (simp only: effectiveness_loop.simps)
qed

lemma battle_effectiveness_bounded:
  assumes "length ts \<le> 2"
  shows "bounded_fl 2 (battle_effectiveness mt ts)"
proof -
  let ?r = "case map_of TYPE_EFFECTIVENESS mt of None \<Rightarrow> [] | Some r \<Rightarrow> r"
  have "bounded_fl (0 + int (length ts)) (effectiveness_loop ?r ts (Fin 1))"
  proof (rule effectiveness_loop_bounded)
    show "0 \<le> row_get ?r d \<and> row_get ?r d \<le> 2" for d by (rule row_get_range)
    show "bounded_fl 0 (Fin 1)" by (simp add: bounded_fl_def two_pow_0)
    show "- 1074 \<le> (0::int)" by simp
    show "0 + int (length ts) < 1024" using assms by simp
  qed
  moreover have "0 + int (length ts) \<le> 2" using assms by simp
  ultimately show ?thesis unfolding battle_effectiveness_def by (rule bounded_fl_mono)
qed

subsection \<open>The damage is at least one\<close>

lemma fl_round_ge:
  assumes "two_pow n \<le> x" "- 1074 \<le> n"
  shows "ge_fl n (fl_round x)"
proof -
  have "two_pow n \<le> round_double x" using assms by (intro round_double_ge_two_pow)
  moreover have "0 < two_pow n" by (rule two_pow_pos)
  ultimately show ?thesis by (auto simp: fl_round_def ge_fl_def Let_def)
qed

lemma add_two_ge: "nonneg_fl t \<Longrightarrow> ge_fl 1 (fl_add t (Fin 2))"
proof (cases t)
  case (Fin a)
  assume "nonneg_fl t"
  then have "two_pow 1 \<le> a + 2" using Fin by (simp add: nonneg_fl_def two_pow_1)
  then have "ge_fl 1 (fl_round (a + 2))" by (intro fl_round_ge) auto
  then show ?thesis using Fin by simp
qed (auto simp: ge_fl_def nonneg_fl_def)

lemma int_of_float_ge:
  assumes "ge_fl (int n) v" "int_of_float v = Ok d"
  shows "2 ^ n \<le> d"
proof -
  obtain a where a: "v = Fin a" "two_pow (int n) \<le> a"
    using assms by (cases v) (auto simp: ge_fl_def)
  have "(of_int (2 ^ n) :: rat) \<le> a" using a(2) by (simp add: two_pow_def)
  then have "2 ^ n \<le> \<lfloor>a\<rfloor>" by (simp only: le_floor_iff)
  moreover have "0 \<le> a" using a(2) two_pow_pos[of "int n"] by simp
  ultimately show ?thesis using assms(2) a(1) by (simp add: trunc_def)
qed

lemma float_of_int_ge:
  assumes "2 ^ n \<le> d" "float_of_int d = Ok y"
  shows "ge_fl (int n) y"
proof -
  have "(of_int (2 ^ n) :: rat) \<le> of_int d" using assms(1) by (simp only: of_int_le_iff)
  then have "two_pow (int n) \<le> of_int d" by (simp add: two_pow_def)
  then have "ge_fl (int n) (fl_round (of_int d))" by (intro fl_round_ge) auto
  then show ?thesis using assms(2) by (auto simp: float_of_int_def ge_fl_def split: pyfloat.splits)
qed

lemma halve_ge: "ge_fl 1 y \<Longrightarrow> ge_fl 0 (fl_mul y (Fin (1 / 2)))"
proof (cases y)
  case (Fin a)
  assume "ge_fl 1 y"
  then have "two_pow 0 \<le> a * (1 / 2)" using Fin by (simp add: ge_fl_def two_pow_0 two_pow_1)
  then have "ge_fl 0 (fl_round (a * (1 / 2)))" by (intro fl_round_ge) auto
  then show ?thesis using Fin by simp
qed (auto simp: ge_fl_def inf_of_sign_def)

lemma calc_damage_ge:
  assumes "0 < pw" "0 < atk" "0 < dfn" "nonneg_fl eff" "calc_damage pw atk dfn eff st = Ok d"
  shows "1 \<le> d \<and> (st \<noteq> Some ''burn'' \<longrightarrow> 2 \<le> d)"
proof -
  obtain base where b: "spec_base pw atk dfn = Ok base"
    using assms(5) by (auto simp: calc_damage_def damage_value_spec bind_r_def split: result.splits)
  let ?v = "fl_add (fl_mul base eff) (Fin 2)"
  have nb: "nonneg_fl base" using assms b by (intro spec_base_nonneg)
  have gv: "ge_fl 1 ?v" using nb assms(4) by (intro add_two_ge fl_mul_nonneg)
  obtain d0 where d0: "int_of_float ?v = Ok d0"
    using assms(5) b by (auto simp: calc_damage_def damage_value_spec bind_r_def split: result.splits)
  have d02: "2 ^ 1 \<le> d0" using int_of_float_ge[of 1 ?v d0] gv d0 by simp
  show ?thesis
  proof (cases "st = Some ''burn''")
    case False
    then have "d = d0" using assms(5) b d0 by (simp add: calc_damage_def damage_value_spec bind_r_def)
    then show ?thesis using d02 by simp
  next
    case True
    then obtain y where y: "float_of_int d0 = Ok y" "int_of_float (fl_mul y (Fin (1 / 2))) = Ok d"
      using assms(5) b d0
      by (auto simp: calc_damage_def damage_value_spec bind_r_def split: result.splits)
    have "ge_fl 1 y" using float_of_int_ge[OF d02 y(1)] by simp
    then have "ge_fl 0 (fl_mul y (Fin (1 / 2)))" by (rule halve_ge)
    then have "2 ^ 0 \<le> d" using int_of_float_ge[of 0 _ d] y(2) by simp
    then show ?thesis using True by simp
  qed
qed

lemma calc_damage_no_effect:
  assumes "calc_damage pw atk dfn (Fin 0) st = Ok d"
  shows "d = (if st = Some ''burn'' then 1 else 2)"
proof -
  obtain base where b: "spec_base pw atk dfn = Ok base"
    using assms by (auto simp: calc_damage_def damage_value_spec bind_r_def split: result.splits)
  have "fl_mul base (Fin 0) = Fin 0 \<or> fl_mul base (Fin 0) = NaN"
    by (cases base) (simp_all add: fl_round_exact_small inf_of_sign_def)
  then have "fl_add (fl_mul base (Fin 0)) (Fin 2) = Fin 2 \<or> fl_add (fl_mul base (Fin 0)) (Fin 2) = NaN"
    by (auto simp: fl_round_exact_small)
  moreover have "float_of_int 2 = Ok (Fin 2)" by (simp add: float_of_int_def fl_round_exact_small)
  moreover have "trunc 2 = 2" "trunc 1 = 1" by (simp_all add: trunc_def)
  ultimately show ?thesis
    using assms b
    by (auto simp: calc_damage_def damage_value_spec bind_r_def fl_round_exact_small split: if_splits)
qed

lemma damage_examples:
  "calc_damage 60 100 50 (Fin 1) None = Ok 7"
  "calc_damage 60 100 50 (Fin 1) (Some ''burn'') = Ok 3"
  by (code_simp, code_simp)

text \<open>
  Claim C2.  For positive power, attack and defense the damage that the code applies is the
  specification's formula, with \<open>floor\<close> where the code converts with \<open>int\<close>: the value
  \<open>((2/5 + 2) * power * (attack / defense)) / 50 * effectiveness + 2\<close> computed in floating
  point and floored, and under Burn the floor of half of that.  The damage is defined when the
  three numbers are below \<open>2 ^ 53\<close> and the defender has at most two elements.  Attack 100, defense
  50, power 60 and effectiveness 1 give 7, and 3 under Burn.
\<close>

theorem damage_formula:
  assumes "0 < pw" "0 < atk" "0 < dfn"
  shows "calc_damage pw atk dfn (battle_effectiveness mt ts) st
           = spec_damage pw atk dfn (battle_effectiveness mt ts) (st = Some ''burn'')
       \<and> (pw < 2 ^ 53 \<and> atk < 2 ^ 53 \<and> dfn < 2 ^ 53 \<and> length ts \<le> 2 \<longrightarrow>
            (\<exists>d. calc_damage pw atk dfn (battle_effectiveness mt ts) st = Ok d))
       \<and> calc_damage 60 100 50 (Fin 1) None = Ok 7
       \<and> calc_damage 60 100 50 (Fin 1) (Some ''burn'') = Ok 3"
  using assms calc_damage_is_spec_damage[OF assms battle_effectiveness_nonneg, of mt ts st]
    calc_damage_defined[of pw atk dfn "battle_effectiveness mt ts" st]
    battle_effectiveness_bounded[of ts mt] damage_examples
  by (auto simp: stat_ok_def)

theorem damage_formula_witness:
  "(0::int) < 60 \<and> (0::int) < 100 \<and> (0::int) < 50
   \<and> spec_damage 60 100 50 (battle_effectiveness ''normal'' [''normal'']) False = Ok 7
   \<and> spec_damage 60 100 50 (battle_effectiveness ''normal'' [''normal'']) True = Ok 3"
proof -
  have e: "battle_effectiveness ''normal'' [''normal''] = Fin 1" by code_simp
  have "calc_damage 60 100 50 (Fin 1) None = spec_damage 60 100 50 (Fin 1) False"
    using damage_formula[of 60 100 50 "''normal''" "[''normal'']" None] by (simp add: e)
  moreover have "calc_damage 60 100 50 (Fin 1) (Some ''burn'') = spec_damage 60 100 50 (Fin 1) True"
    using damage_formula[of 60 100 50 "''normal''" "[''normal'']" "Some ''burn''"] by (simp add: e)
  moreover have "calc_damage 60 100 50 (Fin 1) None = Ok 7"
    using damage_formula[of 60 100 50 "''normal''" "[''normal'']" None] by simp
  moreover have "calc_damage 60 100 50 (Fin 1) (Some ''burn'') = Ok 3"
    using damage_formula[of 60 100 50 "''normal''" "[''normal'']" None] by simp
  ultimately show ?thesis by (simp add: e)
qed

section \<open>The phases of a turn\<close>

subsection \<open>Reading and writing the state\<close>

lemma attacker_say [simp]: "attacker (say ev b) = attacker b"
  and defender_say [simp]: "defender (say ev b) = defender b"
  and pokemon1_say [simp]: "pokemon1 (say ev b) = pokemon1 b"
  and pokemon2_say [simp]: "pokemon2 (say ev b) = pokemon2 b"
  and log_say [simp]: "battle_log (say ev b) = battle_log b @ [ev]"
  and flag_say [simp]: "attacker_is_pokemon1 (say ev b) = attacker_is_pokemon1 b"
  and data_say [simp]: "p1_data_hp (say ev b) = p1_data_hp b" "p2_data_hp (say ev b) = p2_data_hp b"
  and counters_say [simp]: "randoms (say ev b) = randoms b" "choices (say ev b) = choices b"
    "requests (say ev b) = requests b" "turn (say ev b) = turn b"
  by (simp_all add: say_def attacker_def defender_def)

lemma defender_set_defender [simp]: "defender (set_defender p b) = p"
  and attacker_set_defender [simp]: "attacker (set_defender p b) = attacker b"
  and attacker_set_attacker [simp]: "attacker (set_attacker p b) = p"
  and defender_set_attacker [simp]: "defender (set_attacker p b) = defender b"
  and log_set [simp]: "battle_log (set_defender p b) = battle_log b"
    "battle_log (set_attacker p b) = battle_log b"
  and flag_set [simp]: "attacker_is_pokemon1 (set_defender p b) = attacker_is_pokemon1 b"
    "attacker_is_pokemon1 (set_attacker p b) = attacker_is_pokemon1 b"
  and data_set [simp]: "p1_data_hp (set_defender p b) = p1_data_hp b"
    "p2_data_hp (set_defender p b) = p2_data_hp b"
    "p1_data_hp (set_attacker p b) = p1_data_hp b" "p2_data_hp (set_attacker p b) = p2_data_hp b"
  and counters_set [simp]: "randoms (set_defender p b) = randoms b" "choices (set_defender p b) = choices b"
    "requests (set_defender p b) = requests b" "turn (set_defender p b) = turn b"
    "randoms (set_attacker p b) = randoms b" "choices (set_attacker p b) = choices b"
    "requests (set_attacker p b) = requests b" "turn (set_attacker p b) = turn b"
  by (simp_all add: set_defender_def set_attacker_def attacker_def defender_def)

lemma roles_log_update [simp]:
  "attacker (b\<lparr>battle_log := l\<rparr>) = attacker b" "defender (b\<lparr>battle_log := l\<rparr>) = defender b"
  "attacker (b\<lparr>randoms := n\<rparr>) = attacker b" "defender (b\<lparr>randoms := n\<rparr>) = defender b"
  "attacker (b\<lparr>choices := n\<rparr>) = attacker b" "defender (b\<lparr>choices := n\<rparr>) = defender b"
  "attacker (b\<lparr>requests := n\<rparr>) = attacker b" "defender (b\<lparr>requests := n\<rparr>) = defender b"
  by (simp_all add: attacker_def defender_def)

lemma deal_damage_Ok:
  assumes "deal_damage md b = Ok (damage, b')" "power md = Some pw"
  shows "calc_damage pw (attack (attacker b)) (defense (defender b))
           (battle_effectiveness (move_type md) (types (defender b))) (status (attacker b)) = Ok damage"
    and "defender b' = (defender b)\<lparr>hp := hp (defender b) - damage\<rparr>"
    and "attacker b' = attacker b"
    and "attacker_is_pokemon1 b' = attacker_is_pokemon1 b"
    and "battle_log b' = battle_log b @ [Used (name (attacker b)) (move_name md)]
           @ effectiveness_messages (battle_effectiveness (move_type md) (types (defender b)))
               (name (defender b))
           @ [TookDamage (name (defender b)) damage (max 0 (hp (defender b) - damage))]"
    and "randoms b' = randoms b" "choices b' = choices b" "requests b' = requests b"
    and "turn b' = turn b" "p1_data_hp b' = p1_data_hp b" "p2_data_hp b' = p2_data_hp b"
  using assms
  by (auto simp: deal_damage_def Let_def bind_r_def split: result.splits)

lemma negative_attack_damage: "calc_damage 60 (- 100) 50 (Fin 1) None = Ok (- 3)"
  by code_simp

lemma normal_normal: "battle_effectiveness ''normal'' [''normal''] = Fin 1"
  by code_simp

text \<open>
  Claim C10, as stated, fails: nothing checks the statistics, and an attacker whose attack is
  \<open>- 100\<close> deals the damage \<open>- 3\<close> with a move of power 60 on a defender of defense 50, whose HP
  goes from 55 up to 58.
\<close>

theorem negative_attack_counterexample:
  "calc_damage 60 (- 100) 50 (battle_effectiveness ''normal'' [''normal'']) None = Ok (- 3)
   \<and> (case deal_damage swift (start_battle missingno eevee) of
        Ok (damage, b') \<Rightarrow> damage = - 3 \<and> hp (defender b') = 58
                            \<and> hp (defender (start_battle missingno eevee)) = 55
      | _ \<Rightarrow> False)"
  by (simp add: normal_normal negative_attack_damage deal_damage_def Let_def bind_r_def
      start_battle_def make_pokemon_def missingno_def eevee_def swift_def attacker_def defender_def
      say_def set_defender_def)

text \<open>
  Claim C10, amended.  An attack with positive power, by an attacker of positive attack on a
  defender of positive defense, that is carried out takes at least 1 off the defender's HP.
  When the effectiveness is 0 the log says that the move does not affect the defender, and the
  damage is still 2, or 1 when the attacker is burned.  The attack is carried out when the three
  numbers are below \<open>2 ^ 53\<close> and the defender has at most two elements.
\<close>

theorem attack_deals_damage:
  assumes "0 < attack (attacker b)" "0 < defense (defender b)" "power md = Some pw" "0 < pw"
  shows "(deal_damage md b = Ok (damage, b') \<longrightarrow>
            1 \<le> damage \<and> hp (defender b') = hp (defender b) - damage
            \<and> hp (defender b') < hp (defender b)
            \<and> (battle_effectiveness (move_type md) (types (defender b)) = Fin 0 \<longrightarrow>
                 damage = (if status (attacker b) = Some ''burn'' then 1 else 2)
                 \<and> DoesntAffect (name (defender b)) \<in> set (battle_log b')))
       \<and> (attack (attacker b) < 2 ^ 53 \<and> defense (defender b) < 2 ^ 53 \<and> pw < 2 ^ 53
            \<and> length (types (defender b)) \<le> 2 \<longrightarrow>
            (\<exists>damage b'. deal_damage md b = Ok (damage, b')))"
proof (intro conjI impI)
  assume ok: "deal_damage md b = Ok (damage, b')"
  note d = deal_damage_Ok[OF ok assms(3)]
  show 1: "1 \<le> damage"
    using calc_damage_ge[OF assms(4,1,2) battle_effectiveness_nonneg d(1)] by simp
  show 2: "hp (defender b') = hp (defender b) - damage" by (simp add: d(2))
  show "hp (defender b') < hp (defender b)" using 1 2 by simp
  assume z: "battle_effectiveness (move_type md) (types (defender b)) = Fin 0"
  show "damage = (if status (attacker b) = Some ''burn'' then 1 else 2)"
    using d(1) calc_damage_no_effect by (simp only: z)
  show "DoesntAffect (name (defender b)) \<in> set (battle_log b')"
    by (simp add: d(5) z effectiveness_messages_def fl_eq_def)
next
  assume "attack (attacker b) < 2 ^ 53 \<and> defense (defender b) < 2 ^ 53 \<and> pw < 2 ^ 53
            \<and> length (types (defender b)) \<le> 2"
  then obtain d where "calc_damage pw (attack (attacker b)) (defense (defender b))
           (battle_effectiveness (move_type md) (types (defender b))) (status (attacker b)) = Ok d"
    using calc_damage_defined[of pw "attack (attacker b)" "defense (defender b)"
        "battle_effectiveness (move_type md) (types (defender b))" "status (attacker b)"]
      battle_effectiveness_bounded[of "types (defender b)" "move_type md"] assms
    by (auto simp: stat_ok_def)
  then show "\<exists>damage b'. deal_damage md b = Ok (damage, b')"
    using assms(3) by (simp add: deal_damage_def Let_def bind_r_def)
qed

lemma example_pokemon:
  "make_pokemon sandshrew = \<lparr>name = ''Sandshrew'', hp = 50, attack = 75, defense = 85, speed = 40,
     types = [''ground''], moves = [nuzzle_url], status = None\<rparr>"
  "make_pokemon diglett = \<lparr>name = ''Diglett'', hp = 10, attack = 55, defense = 25, speed = 95,
     types = [''ground''], moves = [nuzzle_url], status = None\<rparr>"
  by (simp_all add: make_pokemon_def sandshrew_def diglett_def nuzzle_url_def)

lemma start_sandshrew_diglett:
  "attacker (start_battle sandshrew diglett) = make_pokemon diglett"
  "defender (start_battle sandshrew diglett) = make_pokemon sandshrew"
  by (simp_all add: start_battle_def attacker_def defender_def Let_def example_pokemon)

lemma electric_ground: "battle_effectiveness ''electric'' [''ground''] = Fin 0"
  by code_simp

theorem attack_deals_damage_witness:
  "\<exists>b'. deal_damage nuzzle (start_battle sandshrew diglett) = Ok (2, b')
        \<and> hp (defender b') = 48 \<and> DoesntAffect ''Sandshrew'' \<in> set (battle_log b')"
proof -
  let ?b = "start_battle sandshrew diglett"
  have h: "0 < attack (attacker ?b)" "0 < defense (defender ?b)" "power nuzzle = Some 20" "(0::int) < 20"
    by (simp_all only: start_sandshrew_diglett example_pokemon) (simp_all add: nuzzle_def)
  have r: "attack (attacker ?b) < 2 ^ 53 \<and> defense (defender ?b) < 2 ^ 53 \<and> (20::int) < 2 ^ 53
            \<and> length (types (defender ?b)) \<le> 2"
    by (simp only: start_sandshrew_diglett example_pokemon) simp
  have z: "battle_effectiveness (move_type nuzzle) (types (defender ?b)) = Fin 0"
    by (simp only: start_sandshrew_diglett example_pokemon) (simp add: nuzzle_def electric_ground)
  obtain damage b' where ok: "deal_damage nuzzle ?b = Ok (damage, b')"
    using attack_deals_damage[OF h] r by blast
  have "damage = 2 \<and> hp (defender b') = 48 \<and> DoesntAffect ''Sandshrew'' \<in> set (battle_log b')"
    using attack_deals_damage[OF h, of damage b'] ok z
    by (simp only: start_sandshrew_diglett example_pokemon) simp
  then show ?thesis using ok by blast
qed

lemma flow_state_simps [simp]: "flow_state (Continue b) = b" "flow_state (Break b) = b"
  by (simp_all add: flow_state_def)

lemma sides:
  "pokemon1 b = (if attacker_is_pokemon1 b then attacker b else defender b)"
  "pokemon2 b = (if attacker_is_pokemon1 b then defender b else attacker b)"
  by (simp_all add: attacker_def defender_def)

lemma sides_set [simp]:
  "pokemon1 (set_defender p b) = (if attacker_is_pokemon1 b then pokemon1 b else p)"
  "pokemon2 (set_defender p b) = (if attacker_is_pokemon1 b then p else pokemon2 b)"
  "pokemon1 (set_attacker p b) = (if attacker_is_pokemon1 b then p else pokemon1 b)"
  "pokemon2 (set_attacker p b) = (if attacker_is_pokemon1 b then pokemon2 b else p)"
  by (simp_all add: set_defender_def set_attacker_def)

lemma swap_roles_simps [simp]:
  "attacker (swap_roles b) = defender b" "defender (swap_roles b) = attacker b"
  "pokemon1 (swap_roles b) = pokemon1 b" "pokemon2 (swap_roles b) = pokemon2 b"
  "attacker_is_pokemon1 (swap_roles b) = (\<not> attacker_is_pokemon1 b)"
  "battle_log (swap_roles b) = battle_log b @ [Blank]"
  "randoms (swap_roles b) = randoms b" "choices (swap_roles b) = choices b"
  "requests (swap_roles b) = requests b" "turn (swap_roles b) = turn b + 1"
  "p1_data_hp (swap_roles b) = p1_data_hp b" "p2_data_hp (swap_roles b) = p2_data_hp b"
  by (simp_all add: swap_roles_def attacker_def defender_def say_def)

lemma select_move_Ok:
  "select_move fuel e b = Ok (md, b') \<Longrightarrow>
     (\<exists>k. b' = b\<lparr>choices := choices b + k, requests := requests b + k\<rparr>)
     \<and> (\<exists>p. power md = Some p \<and> 0 < p)"
proof (induction fuel arbitrary: b)
  case 0
  then show ?case by simp
next
  case (Suc fuel)
  let ?b = "b\<lparr>choices := choices b + 1, requests := requests b + 1\<rparr>"
  have step: "(\<exists>k. b' = b\<lparr>choices := choices b + k, requests := requests b + k\<rparr>)
     \<and> (\<exists>p. power md = Some p \<and> 0 < p)" if h: "select_move fuel e ?b = Ok (md, b')"
  proof -
    obtain k where "b' = ?b\<lparr>choices := choices ?b + k, requests := requests ?b + k\<rparr>"
      and p: "\<exists>p. power md = Some p \<and> 0 < p"
      using Suc.IH[OF h] by blast
    then have "b' = b\<lparr>choices := choices b + (1 + k), requests := requests b + (1 + k)\<rparr>"
      by simp
    then show ?thesis using p by blast
  qed
  have now: "\<exists>k. ?b = b\<lparr>choices := choices b + k, requests := requests b + k\<rparr>"
    by (rule exI[of _ 1]) simp
  show ?case
    using Suc.prems step now
    by (auto simp: Let_def simp del: One_nat_def split: if_splits response.splits option.splits)
qed

lemma select_move_frame:
  assumes "select_move fuel e b = Ok (md, b')"
  shows "pokemon1 b' = pokemon1 b" "pokemon2 b' = pokemon2 b"
    "attacker_is_pokemon1 b' = attacker_is_pokemon1 b" "battle_log b' = battle_log b"
    "randoms b' = randoms b" "turn b' = turn b" "p1_data_hp b' = p1_data_hp b"
    "p2_data_hp b' = p2_data_hp b" "attacker b' = attacker b" "defender b' = defender b"
  using select_move_Ok[OF assms] by (auto simp: attacker_def defender_def)

lemma apply_ailment_Ok:
  assumes "apply_ailment e md b = Ok b'"
  shows "attacker b' = attacker b"
    and "attacker_is_pokemon1 b' = attacker_is_pokemon1 b"
    and "p1_data_hp b' = p1_data_hp b" "p2_data_hp b' = p2_data_hp b" "turn b' = turn b"
    and "choices b' = choices b" "requests b' = requests b"
    and "(defender b' = defender b \<and> battle_log b' = battle_log b
          \<and> (randoms b' = randoms b \<or> randoms b' = randoms b + 1))
         \<or> (\<exists>m chance threshold. meta md = Some m \<and> no_status (status (defender b))
              \<and> ailment m \<in> set [''paralysis'', ''burn'', ''poison'']
              \<and> float_of_int (ailment_chance m) = Ok chance
              \<and> fl_truediv chance (Fin 100) = Ok threshold
              \<and> fl_less (Fin (random_random e (randoms b))) threshold
              \<and> defender b' = (defender b)\<lparr>status := Some (ailment m)\<rparr>
              \<and> battle_log b' = battle_log b @ [Afflicted (name (defender b)) (ailment m)]
              \<and> randoms b' = randoms b + 1)"
  using assms
  by (auto simp: apply_ailment_def Let_def bind_r_def attacker_def defender_def say_def
      set_defender_def split: option.splits if_splits result.splits)

lemma end_of_turn_idle:
  "status (attacker b) \<noteq> Some ''poison'' \<Longrightarrow> status (attacker b) \<noteq> Some ''burn'' \<Longrightarrow>
   end_of_turn b = Ok (Continue b)"
  by (simp add: end_of_turn_def)

lemma end_of_turn_tick:
  "status (attacker b) = Some ''poison'' \<or> status (attacker b) = Some ''burn'' \<Longrightarrow>
   end_of_turn b =
     bind_r (int_truediv (original_max_hp b) 8) (\<lambda>q.
     bind_r (int_of_float q) (\<lambda>status_damage.
     if hp (attacker b) - status_damage \<le> 0
     then Ok (Break (say (Fainted (name (attacker b))) (ticked b status_damage)))
     else Ok (Continue (ticked b status_damage))))"
  by (simp add: end_of_turn_def ticked_def original_max_hp_def Let_def cong: if_cong)

lemma end_of_turn_cases:
  assumes "end_of_turn b = Ok f"
  obtains (idle) "status (attacker b) \<noteq> Some ''poison''" "status (attacker b) \<noteq> Some ''burn''"
      "f = Continue b"
  | (tick) q status_damage where
      "status (attacker b) = Some ''poison'' \<or> status (attacker b) = Some ''burn''"
      "int_truediv (original_max_hp b) 8 = Ok q" "int_of_float q = Ok status_damage"
      "0 < hp (attacker b) - status_damage" "f = Continue (ticked b status_damage)"
  | (faint) q status_damage where
      "status (attacker b) = Some ''poison'' \<or> status (attacker b) = Some ''burn''"
      "int_truediv (original_max_hp b) 8 = Ok q" "int_of_float q = Ok status_damage"
      "hp (attacker b) - status_damage \<le> 0"
      "f = Break (say (Fainted (name (attacker b))) (ticked b status_damage))"
proof (cases "status (attacker b) = Some ''poison'' \<or> status (attacker b) = Some ''burn''")
  case False
  then show ?thesis using assms idle by (simp add: end_of_turn_idle)
next
  case True
  from assms obtain q where q: "int_truediv (original_max_hp b) 8 = Ok q"
    by (simp add: end_of_turn_tick[OF True] bind_r_def split: result.splits)
  from assms q obtain sd where sd: "int_of_float q = Ok sd"
    by (simp add: end_of_turn_tick[OF True] bind_r_def split: result.splits)
  show ?thesis
  proof (cases "hp (attacker b) - sd \<le> 0")
    case True
    with assms q sd have "f = Break (say (Fainted (name (attacker b))) (ticked b sd))"
      by (simp add: end_of_turn_tick[OF \<open>status (attacker b) = Some ''poison'' \<or> status (attacker b) = Some ''burn''\<close>] bind_r_def)
    then show ?thesis using faint q sd True \<open>status (attacker b) = Some ''poison'' \<or> status (attacker b) = Some ''burn''\<close> by blast
  next
    case False
    with assms q sd have "f = Continue (ticked b sd)"
      by (simp add: end_of_turn_tick[OF \<open>status (attacker b) = Some ''poison'' \<or> status (attacker b) = Some ''burn''\<close>] bind_r_def)
    then show ?thesis using tick q sd False \<open>status (attacker b) = Some ''poison'' \<or> status (attacker b) = Some ''burn''\<close> by force
  qed
qed

lemma ticked_simps [simp]:
  "attacker (ticked b sd) = (attacker b)\<lparr>hp := hp (attacker b) - sd\<rparr>"
  "defender (ticked b sd) = defender b"
  "attacker_is_pokemon1 (ticked b sd) = attacker_is_pokemon1 b"
  "p1_data_hp (ticked b sd) = p1_data_hp b" "p2_data_hp (ticked b sd) = p2_data_hp b"
  "turn (ticked b sd) = turn b" "randoms (ticked b sd) = randoms b"
  "choices (ticked b sd) = choices b" "requests (ticked b sd) = requests b"
  "battle_log (ticked b sd) = battle_log b @ [StatusDamage (name (attacker b)) sd
       (case status (attacker b) of None \<Rightarrow> [] | Some s \<Rightarrow> s)]"
  by (simp_all add: ticked_def)

lemma entering_simps [simp]:
  "attacker (entering b) = attacker b" "defender (entering b) = defender b"
  "pokemon1 (entering b) = pokemon1 b" "pokemon2 (entering b) = pokemon2 b"
  "attacker_is_pokemon1 (entering b) = attacker_is_pokemon1 b"
  "p1_data_hp (entering b) = p1_data_hp b" "p2_data_hp (entering b) = p2_data_hp b"
  "turn (entering b) = turn b" "choices (entering b) = choices b" "requests (entering b) = requests b"
  "battle_log (entering b) = battle_log b @ [TurnHeader (turn b)]"
  "randoms (entering b) = (if status (attacker b) = Some ''paralysis'' then randoms b + 1 else randoms b)"
  by (simp_all add: entering_def attacker_def defender_def say_def)

lemma action_phase_cases:
  assumes "action_phase e fuel b = Ok f"
  obtains (ko) md b1 damage b2 where
      "select_move fuel e b = Ok (md, b1)" "deal_damage md b1 = Ok (damage, b2)"
      "hp (defender b2) \<le> 0" "f = Break (say (Fainted (name (defender b2))) b2)"
  | (hit) md b1 damage b2 b3 where
      "select_move fuel e b = Ok (md, b1)" "deal_damage md b1 = Ok (damage, b2)"
      "0 < hp (defender b2)" "apply_ailment e md b2 = Ok b3" "f = Continue b3"
proof -
  from assms obtain md b1 where s: "select_move fuel e b = Ok (md, b1)"
    by (auto simp: action_phase_def bind_r_def split: result.splits)
  from assms s obtain damage b2 where d: "deal_damage md b1 = Ok (damage, b2)"
    by (auto simp: action_phase_def bind_r_def split: result.splits)
  show ?thesis
  proof (cases "hp (defender b2) \<le> 0")
    case True
    then have "f = Break (say (Fainted (name (defender b2))) b2)"
      using assms s d by (simp add: action_phase_def bind_r_def)
    then show ?thesis using ko s d True by blast
  next
    case False
    then obtain b3 where a: "apply_ailment e md b2 = Ok b3" "f = Continue b3"
      using assms s d by (auto simp: action_phase_def bind_r_def split: result.splits)
    then show ?thesis using hit s d False by force
  qed
qed

lemma turn_step_unfold:
  "turn_step e fuel b =
     bind_r (if skips e b then Ok (Continue (say (CantMove (name (attacker b))) (entering b)))
             else action_phase e fuel (entering b)) (\<lambda>f.
     case f of
       Break b2 \<Rightarrow> Ok (Break b2)
     | Continue b2 \<Rightarrow>
         bind_r (end_of_turn b2) (\<lambda>g.
         case g of
           Break b3 \<Rightarrow> Ok (Break b3)
         | Continue b3 \<Rightarrow> Ok (Continue (swap_roles b3))))"
  by (simp add: turn_step_def skips_def entering_def Let_def)

lemma turn_step_cases:
  assumes "turn_step e fuel b = Ok f"
  obtains (skip) "skips e b"
      "f = Continue (swap_roles (say (CantMove (name (attacker b))) (entering b)))"
  | (ko) md b1 damage b2 where "\<not> skips e b"
      "select_move fuel e (entering b) = Ok (md, b1)" "deal_damage md b1 = Ok (damage, b2)"
      "hp (defender b2) \<le> 0" "f = Break (say (Fainted (name (defender b2))) b2)"
  | (hit) md b1 damage b2 b3 g where "\<not> skips e b"
      "select_move fuel e (entering b) = Ok (md, b1)" "deal_damage md b1 = Ok (damage, b2)"
      "0 < hp (defender b2)" "apply_ailment e md b2 = Ok b3" "end_of_turn b3 = Ok g"
      "f = (case g of Break b4 \<Rightarrow> Break b4 | Continue b4 \<Rightarrow> Continue (swap_roles b4))"
proof (cases "skips e b")
  case True
  let ?b = "say (CantMove (name (attacker b))) (entering b)"
  have "status (attacker ?b) = Some ''paralysis''" using True by (simp add: skips_def)
  then have "end_of_turn ?b = Ok (Continue ?b)" by (intro end_of_turn_idle) auto
  then have "f = Continue (swap_roles ?b)"
    using assms True by (simp add: turn_step_unfold bind_r_def)
  then show ?thesis using skip True by blast
next
  case False
  from assms False obtain a where a: "action_phase e fuel (entering b) = Ok a"
    by (auto simp: turn_step_unfold bind_r_def split: result.splits)
  show ?thesis
  proof (cases rule: action_phase_cases[OF a])
    case (1 md b1 damage b2)
    then have "f = Break (say (Fainted (name (defender b2))) b2)"
      using assms False a by (simp add: turn_step_unfold bind_r_def)
    then show ?thesis using ko False 1 by blast
  next
    case (2 md b1 damage b2 b3)
    then obtain g where g: "end_of_turn b3 = Ok g"
      using assms False a by (auto simp: turn_step_unfold bind_r_def split: result.splits)
    then have "f = (case g of Break b4 \<Rightarrow> Break b4 | Continue b4 \<Rightarrow> Continue (swap_roles b4))"
      using assms False a 2 by (auto simp: turn_step_unfold bind_r_def split: flow.splits)
    then show ?thesis using hit False 2 g by blast
  qed
qed

section \<open>HP only goes down\<close>

lemma positive_stats_roles:
  "positive_stats b \<longleftrightarrow>
     0 < attack (attacker b) \<and> 0 < defense (attacker b) \<and> 0 < attack (defender b)
     \<and> 0 < defense (defender b) \<and> 0 < p1_data_hp b \<and> 0 < p2_data_hp b"
  by (auto simp: positive_stats_def attacker_def defender_def)

lemma status_damage_nonneg:
  assumes "0 < p1_data_hp b" "0 < p2_data_hp b"
    "int_truediv (original_max_hp b) 8 = Ok q" "int_of_float q = Ok sd"
  shows "0 \<le> sd"
proof -
  have "0 \<le> original_max_hp b" using assms(1,2) by (simp add: original_max_hp_def)
  then have "nonneg_fl q" using assms(3) by (intro int_truediv_nonneg[of _ 8]) auto
  then show ?thesis using assms(4) by (rule int_of_float_nonneg)
qed



lemma declines_refl: "declines x x"
  by (simp add: declines_def)

lemma declines_trans: "declines x y \<Longrightarrow> declines y z \<Longrightarrow> declines x z"
  by (auto simp: declines_def)

lemma declines_entering: "declines b (entering b)"
  by (simp add: declines_def event_ok_def)

lemma declines_say:
  "event_ok ev \<Longrightarrow> declines b (say ev b)"
  by (simp add: declines_def)

lemma declines_select: "select_move fuel e b = Ok (md, b') \<Longrightarrow> declines b b'"
  using select_move_frame[of fuel e b md b'] by (simp add: declines_def)

lemma effectiveness_messages_ok: "list_all event_ok (effectiveness_messages x n)"
  by (simp add: effectiveness_messages_def event_ok_def)

lemma declines_deal:
  assumes "0 < attack (attacker b)" "0 < defense (defender b)" "power md = Some pw" "0 < pw"
    "deal_damage md b = Ok (damage, b')"
  shows "declines b b'"
proof -
  note d = deal_damage_Ok[OF assms(5,3)]
  have "1 \<le> damage"
    using calc_damage_ge[OF assms(4,1,2) battle_effectiveness_nonneg d(1)] by simp
  then show ?thesis
    by (simp add: declines_def d effectiveness_messages_ok event_ok_def)
qed

lemma declines_ailment: "apply_ailment e md b = Ok b' \<Longrightarrow> declines b b'"
  using apply_ailment_Ok[of e md b b'] by (auto simp: declines_def event_ok_def)

lemma declines_ticked: "0 \<le> sd \<Longrightarrow> declines b (ticked b sd)"
  by (simp add: declines_def event_ok_def)

lemma declines_end_of_turn:
  assumes "0 < p1_data_hp b" "0 < p2_data_hp b" "end_of_turn b = Ok g"
  shows "declines b (flow_state g)"
proof (cases rule: end_of_turn_cases[OF assms(3)])
  case 1
  then show ?thesis by (simp add: declines_refl)
next
  case (2 q sd)
  then show ?thesis using status_damage_nonneg[OF assms(1,2)] by (simp add: declines_ticked)
next
  case (3 q sd)
  have "declines b (ticked b sd)" using 3 status_damage_nonneg[OF assms(1,2)] by (simp add: declines_ticked)
  moreover have "declines (ticked b sd) (say (Fainted (name (attacker b))) (ticked b sd))"
    by (rule declines_say) (simp add: event_ok_def)
  ultimately show ?thesis using 3 declines_trans by simp
qed

lemma declines_sides:
  assumes "declines x y"
  shows "hp (pokemon1 y) \<le> hp (pokemon1 x)" "hp (pokemon2 y) \<le> hp (pokemon2 x)"
    "positive_stats x \<Longrightarrow> positive_stats y"
    "list_all event_ok (battle_log x) \<Longrightarrow> list_all event_ok (battle_log y)"
  using assms by (auto simp: declines_def sides positive_stats_roles)

lemma turn_step_declines:
  assumes "positive_stats b" "turn_step e fuel b = Ok f"
  shows "\<exists>y. declines b y \<and> (f = Break y \<or> f = Continue (swap_roles y))"
proof (cases rule: turn_step_cases[OF assms(2)])
  case 1
  have "declines b (say (CantMove (name (attacker b))) (entering b))"
    using declines_entering declines_say[of "CantMove (name (attacker b))" "entering b"] declines_trans
    by (simp add: event_ok_def) blast
  then show ?thesis using 1 by blast
next
  case (2 md b1 damage b2)
  obtain pw where pw: "power md = Some pw" "0 < pw" using select_move_Ok[OF 2(2)] by blast
  have s: "declines (entering b) b1" using 2(2) by (rule declines_select)
  have p: "0 < attack (attacker b1)" "0 < defense (defender b1)"
    using assms(1) select_move_frame[OF 2(2)] by (simp_all add: positive_stats_roles)
  have d: "declines b1 b2" using declines_deal[OF p pw 2(3)] .
  have "declines b2 (say (Fainted (name (defender b2))) b2)"
    by (rule declines_say) (simp add: event_ok_def)
  then have "declines b (say (Fainted (name (defender b2))) b2)"
    using declines_entering[of b] s d declines_trans by blast
  then show ?thesis using 2 by blast
next
  case (3 md b1 damage b2 b3 g)
  obtain pw where pw: "power md = Some pw" "0 < pw" using select_move_Ok[OF 3(2)] by blast
  have s: "declines (entering b) b1" using 3(2) by (rule declines_select)
  have p: "0 < attack (attacker b1)" "0 < defense (defender b1)"
    using assms(1) select_move_frame[OF 3(2)] by (simp_all add: positive_stats_roles)
  have d: "declines b1 b2" using declines_deal[OF p pw 3(3)] .
  have a: "declines b2 b3" using 3(5) by (rule declines_ailment)
  have b3: "declines b b3" using declines_entering[of b] s d a declines_trans by blast
  then have "0 < p1_data_hp b3" "0 < p2_data_hp b3"
    using assms(1) by (simp_all add: declines_def positive_stats_def)
  then have "declines b3 (flow_state g)" using 3(6) by (intro declines_end_of_turn)
  then have "declines b (flow_state g)" using b3 declines_trans by blast
  then show ?thesis using 3(7) by (cases g) auto
qed

lemma battle_loop_declines:
  "positive_stats b \<Longrightarrow> battle_loop fuel e b = Ok b' \<Longrightarrow>
     hp (pokemon1 b') \<le> hp (pokemon1 b) \<and> hp (pokemon2 b') \<le> hp (pokemon2 b)
     \<and> positive_stats b'
     \<and> (list_all event_ok (battle_log b) \<longrightarrow> list_all event_ok (battle_log b'))"
proof (induction fuel arbitrary: b)
  case 0
  then show ?case by (simp split: if_splits)
next
  case (Suc fuel)
  show ?case
  proof (cases "0 < hp (pokemon1 b) \<and> 0 < hp (pokemon2 b)")
    case False
    then show ?thesis using Suc.prems by auto
  next
    case True
    then obtain f where f: "turn_step e (Suc fuel) b = Ok f"
      using Suc.prems(2) by (auto simp: bind_r_def split: result.splits)
    obtain y where y: "declines b y" "f = Break y \<or> f = Continue (swap_roles y)"
      using turn_step_declines[OF Suc.prems(1) f] by blast
    note s = declines_sides[OF y(1)]
    show ?thesis
    proof (cases "f = Break y")
      case True
      then have "b' = y" using Suc.prems(2) f \<open>0 < hp (pokemon1 b) \<and> 0 < hp (pokemon2 b)\<close>
        by (simp add: bind_r_def)
      then show ?thesis using s Suc.prems(1) by simp
    next
      case False
      then have c: "f = Continue (swap_roles y)" using y(2) by simp
      then have l: "battle_loop fuel e (swap_roles y) = Ok b'"
        using Suc.prems(2) f \<open>0 < hp (pokemon1 b) \<and> 0 < hp (pokemon2 b)\<close>
        by (simp add: bind_r_def)
      have ps: "positive_stats (swap_roles y)"
        using s(3)[OF Suc.prems(1)] by (simp add: positive_stats_def)
      note ih = Suc.IH[OF ps l]
      have 1: "hp (pokemon1 b') \<le> hp (pokemon1 y)" "hp (pokemon2 b') \<le> hp (pokemon2 y)"
        "positive_stats b'"
        using ih by simp_all
      have 2: "list_all event_ok (battle_log b')" if "list_all event_ok (battle_log b)"
      proof -
        have "list_all event_ok (battle_log (swap_roles y))"
          using s(4)[OF that] by (simp add: event_ok_def)
        then show ?thesis using ih by blast
      qed
      show ?thesis using 1 2 s(1,2) by (intro conjI impI) simp_all
    qed
  qed
qed

lemma normal_bug_ghost: "battle_effectiveness ''normal'' [''bug'', ''ghost''] = Fin 0"
  by code_simp

lemma swift_on_shedinja: "calc_damage 60 55 45 (Fin 0) None = Ok 2"
  by code_simp

lemma turn_missingno_eevee:
  "turn_step swift_env 1 (start_battle missingno eevee) =
     Ok (Continue (swap_roles
       ((start_battle missingno eevee)
          \<lparr>pokemon2 := (make_pokemon eevee)\<lparr>hp := 58\<rparr>,
           battle_log := [Intro, Faster ''Missingno'', TurnHeader 1, Used ''Missingno'' ''swift'',
                          TookDamage ''Eevee'' (- 3) 58],
           choices := 1, requests := 1\<rparr>)))"
  by (simp add: turn_step_def action_phase_def deal_damage_def apply_ailment_def end_of_turn_def
      normal_normal negative_attack_damage Let_def bind_r_def effectiveness_messages_def fl_eq_def
      start_battle_def make_pokemon_def missingno_def eevee_def swift_def swift_env_def
      attacker_def defender_def say_def set_defender_def swift_url_def)

lemma turn_eevee_shedinja:
  "turn_step swift_env 1 (start_battle eevee shedinja) =
     Ok (Break
       ((start_battle eevee shedinja)
          \<lparr>pokemon2 := (make_pokemon shedinja)\<lparr>hp := - 1\<rparr>,
           battle_log := [Intro, Faster ''Eevee'', TurnHeader 1, Used ''Eevee'' ''swift'',
                          DoesntAffect ''Shedinja'', TookDamage ''Shedinja'' 2 0,
                          Fainted ''Shedinja''],
           choices := 1, requests := 1\<rparr>))"
  by (simp add: turn_step_def action_phase_def deal_damage_def
      normal_bug_ghost swift_on_shedinja Let_def bind_r_def effectiveness_messages_def fl_eq_def
      start_battle_def make_pokemon_def shedinja_def eevee_def swift_def swift_env_def
      attacker_def defender_def say_def set_defender_def swift_url_def)

text \<open>
  Claim C6, as stated, fails: the statistics come from the provider unchecked, and with an
  attacker of attack \<open>- 100\<close> the first turn of the battle logs the damage \<open>- 3\<close> and takes
  the defender's HP from 55 up to 58.
\<close>

theorem negative_damage_counterexample:
  "case turn_step swift_env 1 (start_battle missingno eevee) of
     Ok f \<Rightarrow> hp (pokemon2 (start_battle missingno eevee)) = 55
             \<and> hp (pokemon2 (flow_state f)) = 58
             \<and> last (battle_log (flow_state f)) = Blank
             \<and> TookDamage ''Eevee'' (- 3) 58 \<in> set (battle_log (flow_state f))
   | _ \<Rightarrow> False"
  by (simp only: turn_missingno_eevee)
     (simp add: swap_roles_def say_def start_battle_def make_pokemon_def eevee_def missingno_def)

text \<open>
  Claim C6, amended.  When both combatants have positive attack and defense and positive
  maximum HP, no HP goes up through a turn or through a whole battle.  Every amount taken off
  is logged and is not negative, and every HP the log shows is at least 0, while the HP kept in
  the state may be negative.
\<close>

theorem hp_never_increases:
  assumes "positive_stats b"
  shows "(turn_step e fuel b = Ok f \<longrightarrow>
            hp (pokemon1 (flow_state f)) \<le> hp (pokemon1 b)
            \<and> hp (pokemon2 (flow_state f)) \<le> hp (pokemon2 b)
            \<and> (list_all event_ok (battle_log b) \<longrightarrow> list_all event_ok (battle_log (flow_state f))))
       \<and> (battle_loop fuel e b = Ok b' \<longrightarrow>
            hp (pokemon1 b') \<le> hp (pokemon1 b) \<and> hp (pokemon2 b') \<le> hp (pokemon2 b)
            \<and> (list_all event_ok (battle_log b) \<longrightarrow> list_all event_ok (battle_log b')))"
proof (intro conjI impI)
  assume f: "turn_step e fuel b = Ok f"
  obtain y where y: "declines b y" "f = Break y \<or> f = Continue (swap_roles y)"
    using turn_step_declines[OF assms f] by blast
  note s = declines_sides[OF y(1)]
  show "hp (pokemon1 (flow_state f)) \<le> hp (pokemon1 b)" using y(2) s(1) by auto
  show "hp (pokemon2 (flow_state f)) \<le> hp (pokemon2 b)" using y(2) s(2) by auto
  assume "list_all event_ok (battle_log b)"
  from s(4)[OF this] show "list_all event_ok (battle_log (flow_state f))"
    using y(2) by (auto simp: event_ok_def)
next
  assume l: "battle_loop fuel e b = Ok b'"
  note t = battle_loop_declines[OF assms l]
  show "hp (pokemon1 b') \<le> hp (pokemon1 b)" "hp (pokemon2 b') \<le> hp (pokemon2 b)"
    using t by simp_all
  assume "list_all event_ok (battle_log b)"
  then show "list_all event_ok (battle_log b')" using t by simp
qed

theorem hp_never_increases_witness:
  "positive_stats (start_battle eevee shedinja)
   \<and> list_all event_ok (battle_log (start_battle eevee shedinja))
   \<and> (\<exists>f. turn_step swift_env 1 (start_battle eevee shedinja) = Ok f
            \<and> hp (pokemon1 (flow_state f)) = 55 \<and> hp (pokemon2 (flow_state f)) = - 1
            \<and> TookDamage ''Shedinja'' 2 0 \<in> set (battle_log (flow_state f))
            \<and> list_all event_ok (battle_log (flow_state f)))
   \<and> (\<exists>b'. battle_loop 1 swift_env (start_battle eevee shedinja) = Ok b'
            \<and> hp (pokemon1 b') \<le> 55 \<and> hp (pokemon2 b') = - 1
            \<and> list_all event_ok (battle_log b'))"
proof -
  let ?b = "start_battle eevee shedinja"
  let ?c = "?b\<lparr>pokemon2 := (make_pokemon shedinja)\<lparr>hp := - 1\<rparr>,
           battle_log := [Intro, Faster ''Eevee'', TurnHeader 1, Used ''Eevee'' ''swift'',
                          DoesntAffect ''Shedinja'', TookDamage ''Shedinja'' 2 0,
                          Fainted ''Shedinja''],
           choices := 1, requests := 1\<rparr>"
  have p: "positive_stats ?b"
    by (simp add: positive_stats_def start_battle_def make_pokemon_def eevee_def shedinja_def)
  have l: "list_all event_ok (battle_log ?b)"
    by (simp add: start_battle_def event_ok_def Let_def)
  have h: "hp (pokemon1 ?b) = 55" "hp (pokemon2 ?b) = 1" "hp (pokemon1 ?c) = 55" "hp (pokemon2 ?c) = - 1"
    by (simp_all add: start_battle_def make_pokemon_def eevee_def shedinja_def)
  have t: "turn_step swift_env 1 ?b = Ok (Break ?c)" by (rule turn_eevee_shedinja)
  have w: "battle_loop 1 swift_env ?b = Ok ?c"
    using t h(1,2) by (simp add: bind_r_def)
  have "list_all event_ok (battle_log (flow_state (Break ?c)))"
       "hp (pokemon1 ?c) \<le> hp (pokemon1 ?b)" "list_all event_ok (battle_log ?c)"
    using hp_never_increases[OF p, of swift_env 1 "Break ?c" ?c] t w l by simp_all
  then show ?thesis using p l t w h by simp
qed

section \<open>A turn is defined on data in range\<close>

lemma same_kind_refl [simp]: "same_kind p p"
  by (simp add: same_kind_def)

lemma same_kind_update [simp]:
  "same_kind p (p\<lparr>hp := h\<rparr>)" "same_kind p (p\<lparr>status := s\<rparr>)"
  by (simp_all add: same_kind_def)

lemma frame_refl: "frame x x"
  by (simp add: frame_def)

lemma frame_trans: "frame x y \<Longrightarrow> frame y z \<Longrightarrow> frame x z"
  by (auto simp: frame_def same_kind_def)

lemma frame_entering: "frame b (entering b)"
  by (simp add: frame_def)

lemma frame_say: "frame b (say ev b)"
  by (simp add: frame_def)

lemma frame_select: "select_move fuel e b = Ok (md, b') \<Longrightarrow> frame b b'"
  using select_move_frame[of fuel e b md b'] by (simp add: frame_def)

lemma frame_deal: "deal_damage md b = Ok (damage, b') \<Longrightarrow> frame b b'"
proof -
  assume a: "deal_damage md b = Ok (damage, b')"
  then obtain pw where "power md = Some pw"
    by (cases "power md") (auto simp: deal_damage_def Let_def)
  from deal_damage_Ok[OF a this] show ?thesis by (simp add: frame_def)
qed

lemma frame_ailment: "apply_ailment e md b = Ok b' \<Longrightarrow> frame b b'"
  using apply_ailment_Ok[of e md b b'] by (auto simp: frame_def)

lemma frame_ticked: "frame b (ticked b sd)"
  by (simp add: frame_def)

lemma frame_end_of_turn:
  assumes "end_of_turn b = Ok g"
  shows "frame b (flow_state g)"
proof (cases rule: end_of_turn_cases[OF assms])
  case 1
  then show ?thesis by (simp add: frame_refl)
next
  case (2 q sd)
  then show ?thesis by (simp add: frame_ticked)
next
  case (3 q sd)
  then show ?thesis using frame_trans[OF frame_ticked frame_say] by simp
qed

lemma fit_roles:
  "fit b \<longleftrightarrow> stat_ok (attack (attacker b)) \<and> stat_ok (defense (attacker b))
            \<and> length (types (attacker b)) \<le> 2
            \<and> stat_ok (attack (defender b)) \<and> stat_ok (defense (defender b))
            \<and> length (types (defender b)) \<le> 2
            \<and> stat_ok (p1_data_hp b) \<and> stat_ok (p2_data_hp b)"
  by (auto simp: fit_def attacker_def defender_def)

lemma frame_fit: "frame x y \<Longrightarrow> fit x \<Longrightarrow> fit y"
  by (auto simp: frame_def same_kind_def fit_roles)

lemma fit_swap [simp]: "fit (swap_roles b) = fit b"
  by (simp add: fit_def)

lemma fit_positive: "fit b \<Longrightarrow> positive_stats b"
  by (simp add: fit_def positive_stats_def stat_ok_def)

lemma select_move_payload:
  "select_move fuel e b = Ok (md, b') \<Longrightarrow> \<exists>n u. api e n u = Payload md"
proof (induction fuel arbitrary: b)
  case 0
  then show ?case by simp
next
  case (Suc fuel)
  show ?case
    using Suc.prems Suc.IH[of "b\<lparr>choices := choices b + 1, requests := requests b + 1\<rparr>"]
    by (auto simp: Let_def simp del: One_nat_def split: if_splits response.splits option.splits)
qed

lemma deal_damage_defined:
  assumes "stat_ok (attack (attacker b))" "stat_ok (defense (defender b))"
    "length (types (defender b)) \<le> 2" "power md = Some pw" "stat_ok pw"
  shows "\<exists>damage b'. deal_damage md b = Ok (damage, b')"
proof -
  obtain d where "calc_damage pw (attack (attacker b)) (defense (defender b))
           (battle_effectiveness (move_type md) (types (defender b))) (status (attacker b)) = Ok d"
    using calc_damage_defined[OF assms(5,1,2) battle_effectiveness_bounded[OF assms(3)]] by blast
  then show ?thesis using assms(4) by (simp add: deal_damage_def Let_def bind_r_def)
qed

lemma chance_threshold:
  assumes "0 \<le> c" "c \<le> 100"
  shows "\<exists>chance threshold. float_of_int c = Ok chance \<and> fl_truediv chance (Fin 100) = Ok threshold"
proof -
  have "c \<le> 2 ^ 7" using assms(2) by simp
  then obtain chance where c: "float_of_int c = Ok chance" "bounded_fl 7 chance"
    using float_of_int_bounded[of c 7] assms(1) by auto
  then obtain threshold where "fl_truediv chance (Fin 100) = Ok threshold"
    using fl_truediv_bounded[of 7 chance 100] by auto
  then show ?thesis using c by blast
qed

lemma apply_ailment_defined:
  assumes "move_ok md"
  shows "\<exists>b'. apply_ailment e md b = Ok b'"
proof (cases "meta md")
  case None
  then show ?thesis by (simp add: apply_ailment_def)
next
  case (Some m)
  then obtain chance threshold where
    "float_of_int (ailment_chance m) = Ok chance" "fl_truediv chance (Fin 100) = Ok threshold"
    using chance_threshold[of "ailment_chance m"] assms by (auto simp: move_ok_def)
  then show ?thesis using Some by (simp add: apply_ailment_def Let_def bind_r_def)
qed

lemma status_damage_defined:
  assumes "stat_ok (p1_data_hp b)" "stat_ok (p2_data_hp b)"
  shows "\<exists>q sd. int_truediv (original_max_hp b) 8 = Ok q \<and> int_of_float q = Ok sd"
proof -
  have "0 \<le> original_max_hp b" "original_max_hp b \<le> 2 ^ 53"
    using assms by (simp_all add: original_max_hp_def stat_ok_def)
  then obtain q where q: "int_truediv (original_max_hp b) 8 = Ok q" "bounded_fl 53 q"
    using int_truediv_bounded[of "original_max_hp b" 53 8] by auto
  then obtain sd where "int_of_float q = Ok sd" using int_of_float_bounded[of 53 q] by auto
  then show ?thesis using q by blast
qed

lemma end_of_turn_defined:
  assumes "stat_ok (p1_data_hp b)" "stat_ok (p2_data_hp b)"
  shows "\<exists>g. end_of_turn b = Ok g"
proof (cases "status (attacker b) = Some ''poison'' \<or> status (attacker b) = Some ''burn''")
  case False
  then show ?thesis by (simp add: end_of_turn_idle)
next
  case True
  obtain q sd where "int_truediv (original_max_hp b) 8 = Ok q" "int_of_float q = Ok sd"
    using status_damage_defined[OF assms] by blast
  then show ?thesis by (simp add: end_of_turn_tick[OF True] bind_r_def)
qed

lemma turn_step_defined:
  assumes "fit b" "provider_ok e" "skips e b \<or> (\<exists>md b1. select_move fuel e (entering b) = Ok (md, b1))"
  shows "\<exists>f. turn_step e fuel b = Ok f"
proof (cases "skips e b")
  case True
  let ?b = "say (CantMove (name (attacker b))) (entering b)"
  have "status (attacker ?b) = Some ''paralysis''" using True by (simp add: skips_def)
  then have "end_of_turn ?b = Ok (Continue ?b)" by (intro end_of_turn_idle) auto
  then show ?thesis using True by (simp add: turn_step_unfold bind_r_def)
next
  case False
  then obtain md b1 where s: "select_move fuel e (entering b) = Ok (md, b1)" using assms(3) by blast
  obtain pw where pw: "power md = Some pw" "0 < pw" using select_move_Ok[OF s] by blast
  have ok: "move_ok md" using select_move_payload[OF s] assms(2) by (auto simp: provider_ok_def)
  then have pok: "stat_ok pw" using pw by (simp add: move_ok_def stat_ok_def)
  have f1: "fit b1" using frame_fit[OF frame_trans[OF frame_entering frame_select[OF s]] assms(1)] .
  then obtain damage b2 where d: "deal_damage md b1 = Ok (damage, b2)"
    using deal_damage_defined[OF _ _ _ pw(1) pok, of b1] by (auto simp: fit_roles)
  have f2: "fit b2" using frame_fit[OF frame_deal[OF d] f1] .
  show ?thesis
  proof (cases "hp (defender b2) \<le> 0")
    case True
    then show ?thesis using False s d by (simp add: turn_step_unfold action_phase_def bind_r_def)
  next
    case alive: False
    obtain b3 where a: "apply_ailment e md b2 = Ok b3" using apply_ailment_defined[OF ok] by blast
    have f3: "fit b3" using frame_fit[OF frame_ailment[OF a] f2] .
    then obtain g where g: "end_of_turn b3 = Ok g"
      using end_of_turn_defined[of b3] by (auto simp: fit_def)
    show ?thesis using False s d alive a g
      by (cases g) (simp_all add: turn_step_unfold action_phase_def bind_r_def)
  qed
qed

end
